theory Spec2Isabelle
  imports Main "HOL-Library.AList" "HOL-Library.Sublist" "HOL-Library.Char_ord"
    "HOL-Library.List_Lexorder" "HOL-Library.Product_Lexorder"
begin

section \<open>Strings\<close>

text \<open>
  A Python \<open>str\<close> is modelled as a \<open>string\<close> whose characters are read as the code points
  U+0000 .. U+00FF. On that range \<open>is_space\<close> is \<open>str.isspace\<close> (and the class \<open>\s\<close> of
  \<open>re\<close>), \<open>lower\<close> is \<open>str.lower\<close> and \<open>strip\<close> is \<open>str.strip\<close> without argument.
\<close>

definition is_space :: "char \<Rightarrow> bool" where
  "is_space c = (let n = (of_char c :: nat) in
     (9 \<le> n \<and> n \<le> 13) \<or> (28 \<le> n \<and> n \<le> 32) \<or> n = 133 \<or> n = 160)"

definition lower_char :: "char \<Rightarrow> char" where
  "lower_char c = (let n = (of_char c :: nat) in
     if (65 \<le> n \<and> n \<le> 90) \<or> (192 \<le> n \<and> n \<le> 222 \<and> n \<noteq> 215)
     then char_of (n + 32) else c)"

definition lower :: "string \<Rightarrow> string" where
  "lower s = map lower_char s"

definition strip :: "string \<Rightarrow> string" where
  "strip s = rev (dropWhile is_space (rev (dropWhile is_space s)))"

text \<open>\<open>re.sub(r"\s+", " ", s)\<close>: every maximal run of whitespace becomes one space.\<close>

function collapse_ws :: "string \<Rightarrow> string" where
  "collapse_ws [] = []"
| "collapse_ws (c # cs) =
     (if is_space c then CHR '' '' # collapse_ws (dropWhile is_space cs)
      else c # collapse_ws cs)"
  by pat_completeness auto
termination
  by (relation "measure length") (auto simp: length_dropWhile_le less_Suc_eq_le)

text \<open>\<open>s or ""\<close> for an optional string.\<close>

definition or_empty :: "string option \<Rightarrow> string" where
  "or_empty s = (case s of None \<Rightarrow> [] | Some t \<Rightarrow> t)"

text \<open>Python's truth value of an optional string: neither \<open>None\<close> nor empty.\<close>

definition truthy :: "string option \<Rightarrow> bool" where
  "truthy s = (case s of None \<Rightarrow> False | Some t \<Rightarrow> t \<noteq> [])"

definition normalize_space :: "string option \<Rightarrow> string" where
  "normalize_space s = strip (collapse_ws (or_empty s))"

text \<open>The operator \<open>needle in hay\<close> on strings.\<close>

fun contains :: "string \<Rightarrow> string \<Rightarrow> bool" where
  "contains n [] = (n = [])"
| "contains n (h # hs) = (if prefix n (h # hs) then True else contains n hs)"

text \<open>\<open>" ".join(parts)\<close>.\<close>

fun join_sp :: "string list \<Rightarrow> string" where
  "join_sp [] = []"
| "join_sp [x] = x"
| "join_sp (x # y # ys) = x @ CHR '' '' # join_sp (y # ys)"

section \<open>Postings\<close>

record Job =
  source :: string
  title :: string
  company :: string
  location :: string
  url :: string
  posted :: "string option"
  posted_dt :: "string option"
  salary :: "string option"
  snippet :: "string option"

definition key :: "Job \<Rightarrow> string" where
  "key j = lower (strip (url j))"

section \<open>The libraries the program calls\<close>

text \<open>
  The HTML parser and its CSS selectors (BeautifulSoup), the regular expressions (\<open>re\<close>),
  \<open>urllib.parse.urljoin\<close> and \<open>dateparser\<close> are not code of this program: they are
  parameters of the model. A call that can raise returns a sum, \<open>Inl\<close> the exception.
  \<open>'n\<close> is the type of parsed nodes (the soup and its tags), \<open>'r\<close> the type of compiled
  patterns; the flag of \<open>re_compile\<close> is \<open>re.I\<close>.
\<close>

datatype error = SelectorSyntaxError | ReError | ValueError | KeyError | RequestException

record ('n, 'r) lib =
  bs_parse :: "string \<Rightarrow> 'n"
  bs_select :: "'n \<Rightarrow> string \<Rightarrow> error + 'n list"
  bs_get :: "'n \<Rightarrow> string \<Rightarrow> string option"
  bs_get_text :: "'n \<Rightarrow> string"
  bs_find_all :: "'n \<Rightarrow> string \<Rightarrow> 'n list"
  bs_string :: "'n \<Rightarrow> string option"
  re_compile :: "string \<Rightarrow> bool \<Rightarrow> error + 'r"
  re_search :: "'r \<Rightarrow> string \<Rightarrow> bool"
  urljoin :: "string \<Rightarrow> string \<Rightarrow> error + string"
  dateparser_parse :: "string \<Rightarrow> string option"

text \<open>
  The network: the answer of \<open>requests.get\<close> to a URL, given the URLs requested before it
  (so the answer of a site may change between requests): a status code and a body, or an
  exception.
\<close>

type_synonym web = "string list \<Rightarrow> string \<Rightarrow> error + (int \<times> string)"

definition ebind :: "error + 'a \<Rightarrow> ('a \<Rightarrow> error + 'b) \<Rightarrow> error + 'b" where
  "ebind m f = (case m of Inl e \<Rightarrow> Inl e | Inr x \<Rightarrow> f x)"

section \<open>Site rules\<close>

record selectors =
  sel_container :: "string option"
  sel_title :: "string option"
  sel_company :: "string option"
  sel_location :: "string option"
  sel_link :: "string option"
  sel_posted :: "string option"
  sel_salary :: "string option"
  sel_snippet :: "string option"
  sel_base :: "string option"
  sel_link_pattern :: "string option"
  sel_next_selector :: "string option"

datatype page_entry = PageDict "string option" "string option" | PageStr string

text \<open>
  A site's configuration: the selector keys at its top level, and the keys \<open>selectors\<close>,
  \<open>pages\<close>, \<open>urls\<close>, \<open>url\<close>, \<open>default_location\<close> and \<open>max_pages\<close>, each absent or present.
\<close>

record cfg = selectors +
  cfg_selectors :: "selectors option"
  cfg_pages :: "page_entry list option"
  cfg_urls :: "string list option"
  cfg_url :: "string option"
  cfg_default_location :: "string option"
  cfg_max_pages :: "int option"

text \<open>\<open>cfg.get("selectors", cfg)\<close>\<close>

definition selectors_of :: "cfg \<Rightarrow> selectors" where
  "selectors_of c = (case cfg_selectors c of Some s \<Rightarrow> s | None \<Rightarrow> selectors.truncate c)"

text \<open>\<open>selectors.get("base", "")\<close>, as \<open>urljoin\<close> reads it\<close>

definition base_of :: "selectors \<Rightarrow> string" where
  "base_of s = or_empty (sel_base s)"

text \<open>\<open>int(cfg.get("max_pages", 4))\<close>\<close>

definition max_pages_of :: "cfg \<Rightarrow> int" where
  "max_pages_of c = (case cfg_max_pages c of None \<Rightarrow> 4 | Some k \<Rightarrow> k)"

section \<open>Helpers of the extractor\<close>

definition parse_date :: "('n, 'r) lib \<Rightarrow> string \<Rightarrow> string option" where
  "parse_date l text = (if text = [] then None else dateparser_parse l text)"

text \<open>\<open>node.select_one(sel)\<close>: the first match of \<open>node.select(sel)\<close>, or \<open>None\<close>.\<close>

definition select_one :: "('n, 'r) lib \<Rightarrow> 'n \<Rightarrow> string \<Rightarrow> error + 'n option" where
  "select_one l node s =
     (case bs_select l node s of Inl e \<Rightarrow> Inl e
      | Inr [] \<Rightarrow> Inr None
      | Inr (el # _) \<Rightarrow> Inr (Some el))"

definition sel_text :: "('n, 'r) lib \<Rightarrow> 'n \<Rightarrow> string option \<Rightarrow> error + string" where
  "sel_text l node sel =
     (case sel of None \<Rightarrow> Inr []
      | Some s \<Rightarrow>
          if s = [] then Inr []
          else (case select_one l node s of Inl e \<Rightarrow> Inl e
                | Inr None \<Rightarrow> Inr (normalize_space (Some []))
                | Inr (Some el) \<Rightarrow> Inr (normalize_space (Some (bs_get_text l el)))))"

definition sel_attr ::
  "('n, 'r) lib \<Rightarrow> 'n \<Rightarrow> string option \<Rightarrow> string \<Rightarrow> error + string option" where
  "sel_attr l node sel attr =
     (case sel of None \<Rightarrow> Inr (Some [])
      | Some s \<Rightarrow>
          if s = [] then Inr (Some [])
          else (case select_one l node s of Inl e \<Rightarrow> Inl e
                | Inr None \<Rightarrow> Inr (Some [])
                | Inr (Some el) \<Rightarrow> Inr (bs_get l el attr)))"

section \<open>Extraction\<close>

text \<open>One card of the structured pass: the posting it contributes, if any.\<close>

definition extract_card ::
  "('n, 'r) lib \<Rightarrow> selectors \<Rightarrow> string \<Rightarrow> string option \<Rightarrow> 'n \<Rightarrow> error + Job option" where
  "extract_card l sels source_name default_location cd =
     ebind (sel_text l cd (sel_title sels)) (\<lambda>t.
     ebind (sel_text l cd (sel_company sels)) (\<lambda>c.
     ebind (sel_text l cd (sel_location sels)) (\<lambda>loc0.
     ebind (sel_attr l cd (sel_link sels) ''href'') (\<lambda>u0.
     ebind (case u0 of None \<Rightarrow> Inr None
            | Some h \<Rightarrow> if h = [] then Inr (Some [])
                        else map_sum id Some (urljoin l (base_of sels) h)) (\<lambda>u.
     ebind (sel_text l cd (sel_posted sels)) (\<lambda>posted_txt.
     ebind (sel_text l cd (sel_salary sels)) (\<lambda>sal.
     ebind (sel_text l cd (sel_snippet sels)) (\<lambda>snip.
       if t \<noteq> [] \<and> truthy u then
         Inr (Some \<lparr>source = source_name, title = t, company = c,
                    location = (if loc0 \<noteq> [] then loc0 else or_empty default_location),
                    url = or_empty u, posted = Some posted_txt,
                    posted_dt = (if posted_txt \<noteq> [] then parse_date l posted_txt else None),
                    salary = Some sal, snippet = Some snip\<rparr>)
       else Inr None))))))))"

fun extract_cards ::
  "('n, 'r) lib \<Rightarrow> selectors \<Rightarrow> string \<Rightarrow> string option \<Rightarrow> 'n list \<Rightarrow> Job list
     \<Rightarrow> error + Job list" where
  "extract_cards l sels source_name default_location [] out = Inr out"
| "extract_cards l sels source_name default_location (cd # cards) out =
     (case extract_card l sels source_name default_location cd of
        Inl e \<Rightarrow> Inl e
      | Inr None \<Rightarrow> extract_cards l sels source_name default_location cards out
      | Inr (Some j) \<Rightarrow> extract_cards l sels source_name default_location cards (out @ [j]))"

text \<open>The loop of the fallback pass over the anchors \<open>a[href]\<close>.\<close>

fun harvest_links ::
  "('n, 'r) lib \<Rightarrow> 'r \<Rightarrow> string \<Rightarrow> string \<Rightarrow> string option \<Rightarrow> 'n list \<Rightarrow> Job list
     \<Rightarrow> error + Job list" where
  "harvest_links l pat base source_name default_location [] out = Inr out"
| "harvest_links l pat base source_name default_location (a # rest) out =
     (let href = or_empty (bs_get l a ''href'') in
      if href = [] \<or> \<not> re_search l pat href
      then harvest_links l pat base source_name default_location rest out
      else (case urljoin l base href of
              Inl e \<Rightarrow> Inl e
            | Inr u \<Rightarrow>
                let t0 = normalize_space (Some (bs_get_text l a));
                    t = (if t0 \<noteq> [] then t0 else ''Job posting'')
                in if \<not> list_ex (\<lambda>j. url j = u) out
                   then harvest_links l pat base source_name default_location rest
                          (out @ [\<lparr>source = source_name, title = t, company = [],
                                   location = or_empty default_location, url = u,
                                   posted = None, posted_dt = None, salary = None,
                                   snippet = Some []\<rparr>])
                   else harvest_links l pat base source_name default_location rest out))"

definition structured_pass ::
  "('n, 'r) lib \<Rightarrow> 'n \<Rightarrow> selectors \<Rightarrow> string \<Rightarrow> string option \<Rightarrow> error + Job list" where
  "structured_pass l soup sels source_name default_location =
     (if truthy (sel_container sels)
      then ebind (bs_select l soup (or_empty (sel_container sels)))
             (\<lambda>cards. extract_cards l sels source_name default_location cards [])
      else Inr [])"

definition fallback_pass ::
  "('n, 'r) lib \<Rightarrow> 'n \<Rightarrow> selectors \<Rightarrow> string \<Rightarrow> string option \<Rightarrow> Job list
     \<Rightarrow> error + Job list" where
  "fallback_pass l soup sels source_name default_location out =
     (if truthy (sel_link_pattern sels)
      then ebind (re_compile l (or_empty (sel_link_pattern sels)) False) (\<lambda>pat.
           ebind (bs_select l soup ''a[href]'') (\<lambda>anchors.
             harvest_links l pat (base_of sels) source_name default_location anchors out))
      else Inr out)"

definition extract_jobs_from_html ::
  "('n, 'r) lib \<Rightarrow> string \<Rightarrow> cfg \<Rightarrow> string \<Rightarrow> string option \<Rightarrow> error + Job list" where
  "extract_jobs_from_html l html rules source_name default_location =
     (let soup = bs_parse l html; sels = selectors_of rules
      in ebind (structured_pass l soup sels source_name default_location)
           (\<lambda>out. fallback_pass l soup sels source_name default_location out))"

section \<open>Pagination\<close>

text \<open>\<open>el and el.get("href")\<close>: the link target of an element that is there, when it is
  neither missing nor empty.\<close>

definition href_of :: "('n, 'r) lib \<Rightarrow> 'n option \<Rightarrow> string option" where
  "href_of l el =
     (case el of None \<Rightarrow> None
      | Some e \<Rightarrow> (case bs_get l e ''href'' of None \<Rightarrow> None
                   | Some h \<Rightarrow> if h = [] then None else Some h))"

text \<open>\<open>soup.find("a", string=pat)\<close>: the first \<open>a\<close> tag, in document order, whose
  \<open>.string\<close> is there and is matched somewhere by the pattern.\<close>

definition find_a :: "('n, 'r) lib \<Rightarrow> 'n \<Rightarrow> 'r \<Rightarrow> 'n option" where
  "find_a l soup pat =
     find (\<lambda>a. case bs_string l a of None \<Rightarrow> False | Some s \<Rightarrow> re_search l pat s)
       (bs_find_all l soup ''a'')"

text \<open>The selector \<open>a[rel="next"]\<close>.\<close>

definition rel_next :: string where
  "rel_next = ''a[rel='' @ [CHR 0x22] @ ''next'' @ [CHR 0x22] @ '']''"

text \<open>The phrases of the text heuristics; \<open>CHR 0xE4\<close> is the letter a with diaeresis.\<close>

definition next_phrases :: "string list" where
  "next_phrases =
     [''Seuraava'', ''Next'',
      ''N'' @ [CHR 0xE4] @ ''yt'' @ [CHR 0xE4] @ '' lis'' @ [CHR 0xE4, CHR 0xE4],
      ''Load more'']"

fun text_heuristics ::
  "('n, 'r) lib \<Rightarrow> 'n \<Rightarrow> string \<Rightarrow> string list \<Rightarrow> error + string option" where
  "text_heuristics l soup base [] = Inr None"
| "text_heuristics l soup base (txt # txts) =
     (case re_compile l txt True of
        Inl e \<Rightarrow> Inl e
      | Inr pat \<Rightarrow>
          (case href_of l (find_a l soup pat) of
             Some h \<Rightarrow> map_sum id Some (urljoin l base h)
           | None \<Rightarrow> text_heuristics l soup base txts))"

definition find_next_url :: "('n, 'r) lib \<Rightarrow> 'n \<Rightarrow> selectors \<Rightarrow> error + string option" where
  "find_next_url l soup sels =
     (let base = base_of sels in
      ebind (if truthy (sel_next_selector sels)
             then select_one l soup (or_empty (sel_next_selector sels)) else Inr None) (\<lambda>el1.
        case href_of l el1 of
          Some h \<Rightarrow> map_sum id Some (urljoin l base h)
        | None \<Rightarrow>
            ebind (select_one l soup rel_next) (\<lambda>el2.
              case href_of l el2 of
                Some h \<Rightarrow> map_sum id Some (urljoin l base h)
              | None \<Rightarrow> text_heuristics l soup base next_phrases)))"

section \<open>Crawling\<close>

fun pages_loop ::
  "string option \<Rightarrow> page_entry list \<Rightarrow> error + (string \<times> string option) list" where
  "pages_loop dl [] = Inr []"
| "pages_loop dl (PageDict None loc # ps) = Inl KeyError"
| "pages_loop dl (PageDict (Some u) loc # ps) = map_sum id ((#) (u, loc)) (pages_loop dl ps)"
| "pages_loop dl (PageStr u # ps) = map_sum id ((#) (u, dl)) (pages_loop dl ps)"

definition build_pages :: "cfg \<Rightarrow> error + (string \<times> string option) list" where
  "build_pages c =
     (case cfg_pages c of
        Some ps \<Rightarrow> pages_loop (cfg_default_location c) ps
      | None \<Rightarrow>
          (case cfg_urls c of
             Some us \<Rightarrow> Inr (map (\<lambda>u. (u, cfg_default_location c)) us)
           | None \<Rightarrow>
               (case cfg_url c of
                  Some u \<Rightarrow> Inr [(u, cfg_default_location c)]
                | None \<Rightarrow> Inr [])))"

text \<open>
  \<open>fetch_url\<close>: the body of a page answered with status 200, \<open>None\<close> for any other status
  and for any exception of the request.
\<close>

definition fetch_url :: "web \<Rightarrow> string list \<Rightarrow> string \<Rightarrow> string option" where
  "fetch_url w history u =
     (case w history u of
        Inl e \<Rightarrow> None
      | Inr (status_code, text) \<Rightarrow> if status_code = 200 then Some text else None)"

text \<open>
  The state of one site's crawl: the lists \<open>results\<close> and \<open>seen\<close> of the program, and two
  logs the program does not keep, for stating what it did: the URLs it requested and the
  postings the extractor returned, both in order.
\<close>

record crawl_state =
  results :: "Job list"
  seen :: "string set"
  fetched :: "string list"
  extracted :: "Job list"

text \<open>The loop over the postings of one page.\<close>

fun add_jobs :: "int \<Rightarrow> Job list \<Rightarrow> crawl_state \<Rightarrow> crawl_state" where
  "add_jobs max_items [] st = st"
| "add_jobs max_items (j # js) st =
     (let k = key j in
      if k \<in> seen st then add_jobs max_items js st
      else
        let st' = st\<lparr>results := results st @ [j], seen := insert k (seen st)\<rparr>
        in if int (length (results st')) \<ge> max_items then st'
           else add_jobs max_items js st')"

text \<open>
  The \<open>while\<close> loop of one start URL, from the values of \<open>url\<close>, \<open>pages_seen\<close> and
  \<open>visited\<close> at the loop's head. The result is the exception that ended it, if any, and
  the state.
\<close>

function walk ::
  "('n, 'r) lib \<Rightarrow> web \<Rightarrow> string \<Rightarrow> cfg \<Rightarrow> int \<Rightarrow> string option \<Rightarrow> string option \<Rightarrow> int
     \<Rightarrow> string set \<Rightarrow> crawl_state \<Rightarrow> error option \<times> crawl_state" where
  "walk l w name c max_items default_loc u pages_seen visited st =
     (if truthy u \<and> pages_seen < max_pages_of c \<and> int (length (results st)) < max_items
      then
        if or_empty u \<in> visited then (None, st)
        else
          let st1 = st\<lparr>fetched := fetched st @ [or_empty u]\<rparr> in
          (case fetch_url w (fetched st) (or_empty u) of
             None \<Rightarrow> (None, st1)
           | Some html \<Rightarrow>
               if html = [] then (None, st1)
               else
                 (case extract_jobs_from_html l html c name default_loc of
                    Inl e \<Rightarrow> (Some e, st1)
                  | Inr jobs \<Rightarrow>
                      let st2 = add_jobs max_items jobs
                                  (st1\<lparr>extracted := extracted st1 @ jobs\<rparr>)
                      in if int (length (results st2)) \<ge> max_items then (None, st2)
                         else
                           (case find_next_url l (bs_parse l html) (selectors_of c) of
                              Inl e \<Rightarrow> (Some e, st2)
                            | Inr next_url \<Rightarrow>
                                walk l w name c max_items default_loc next_url
                                  (pages_seen + 1) (insert (or_empty u) visited) st2)))
      else (None, st))"
  by pat_completeness auto
termination
  by (relation "measure (\<lambda>(l, w, name, c, max_items, default_loc, u, pages_seen, visited, st).
        nat (max_pages_of c - pages_seen))") auto

text \<open>The loop over the start URLs: an exception ends it.\<close>

fun crawl_pages ::
  "('n, 'r) lib \<Rightarrow> web \<Rightarrow> string \<Rightarrow> cfg \<Rightarrow> int \<Rightarrow> (string \<times> string option) list
     \<Rightarrow> crawl_state \<Rightarrow> error option \<times> crawl_state" where
  "crawl_pages l w name c max_items [] st = (None, st)"
| "crawl_pages l w name c max_items ((start_url, default_loc) # specs) st =
     (case walk l w name c max_items default_loc (Some start_url) 0 {} st of
        (Some e, st') \<Rightarrow> (Some e, st')
      | (None, st') \<Rightarrow> crawl_pages l w name c max_items specs st')"

definition init_state :: crawl_state where
  "init_state = \<lparr>results = [], seen = {}, fetched = [], extracted = []\<rparr>"

definition crawl_site_run ::
  "('n, 'r) lib \<Rightarrow> web \<Rightarrow> string \<Rightarrow> cfg \<Rightarrow> int \<Rightarrow> error option \<times> crawl_state" where
  "crawl_site_run l w name c max_items =
     (case build_pages c of
        Inl e \<Rightarrow> (Some e, init_state)
      | Inr specs \<Rightarrow> crawl_pages l w name c max_items specs init_state)"

definition crawl_site :: "('n, 'r) lib \<Rightarrow> web \<Rightarrow> string \<Rightarrow> cfg \<Rightarrow> int \<Rightarrow> error + Job list" where
  "crawl_site l w name c max_items =
     (case crawl_site_run l w name c max_items of
        (Some e, st) \<Rightarrow> Inl e
      | (None, st) \<Rightarrow> Inr (results st))"

section \<open>Deduplication, filter and sort of \<open>main\<close>\<close>

text \<open>
  A dictionary keeps its keys in the order of their first insertion, and an assignment to
  a key that is there replaces the value in place: \<open>AList.update\<close> on an association list.
\<close>

definition dedup_dict :: "Job list \<Rightarrow> (string \<times> Job) list" where
  "dedup_dict all_jobs = fold (\<lambda>j d. AList.update (key j) j d) all_jobs []"

definition dedupe :: "Job list \<Rightarrow> Job list" where
  "dedupe all_jobs = map snd (dedup_dict all_jobs)"

definition job_text :: "Job \<Rightarrow> string" where
  "job_text j =
     join_sp [lower (title j), lower (company j), lower (location j),
       lower (or_empty (snippet j))]"

definition ok :: "string list \<Rightarrow> string list \<Rightarrow> Job \<Rightarrow> bool" where
  "ok keywords locations j =
     (let text = job_text j;
          kw_ok = (if keywords = [] then True
                   else list_ex (\<lambda>k. contains (lower k) text) keywords);
          loc_ok = (if locations = [] then True
                    else list_ex (\<lambda>x. contains (lower x) text) locations)
      in kw_ok \<and> loc_ok)"

definition filter_jobs :: "Job list \<Rightarrow> string list \<Rightarrow> string list \<Rightarrow> Job list" where
  "filter_jobs jobs keywords locations =
     (if keywords = [] \<and> locations = [] then jobs else filter (ok keywords locations) jobs)"

text \<open>The key of the sort: \<open>(j.posted_dt or "0000-00-00", j.source)\<close>.\<close>

definition sort_k :: "Job \<Rightarrow> string \<times> string" where
  "sort_k j = ((if truthy (posted_dt j) then or_empty (posted_dt j) else ''0000-00-00''),
               source j)"

text \<open>
  \<open>jobs.sort(key=..., reverse=True)\<close>: the list is reversed, sorted by a stable ascending
  sort and reversed again, so that postings of equal key keep their order.
\<close>

definition sort_jobs :: "Job list \<Rightarrow> Job list" where
  "sort_jobs jobs = rev (sort_key sort_k (rev jobs))"

section \<open>A small library for running the model\<close>

text \<open>
  The theorems below hold for every library. To run the model on concrete pages, here is
  one small library. An element \<open>Elem name attrs text kids\<close> stands for the tag
  \<open><name attrs>text kids</name>\<close>, so \<open>Elem ''a'' [(''href'', ''/n'')] ''Next'' []\<close> is
  \<open><a href="/n">Next</a>\<close>. It agrees with the Python libraries on what the examples use:
  \<^item> selectors: a tag name, \<open>.cls\<close> for an element whose class is \<open>cls\<close>, \<open>a[href]\<close> and
    \<open>a[rel="next"]\<close>, matched against the descendants in document order; a selector whose
    square brackets do not pair is a syntax error;
  \<^item> patterns: a text without special characters, searched as a substring (without case
    under \<open>re.I\<close>); a pattern whose parentheses do not pair is an error;
  \<^item> \<open>urljoin\<close>: an empty base gives the URL, an empty URL gives the base, a URL \<open>#frag\<close>
    replaces the fragment of the base (an empty fragment is dropped), a URL with \<open>://\<close>
    stands, a relative path is appended to a base that ends with \<open>/\<close>, and the URL
    \<open>//[\<close>, which opens an address that it does not close, is refused with \<open>ValueError\<close>;
  \<^item> a page is parsed by looking it up in a table of parsed pages; no date is parsed.
\<close>

datatype elem = Elem string "(string \<times> string) list" string "elem list"

fun e_name :: "elem \<Rightarrow> string" where
  "e_name (Elem n a t ks) = n"

fun e_attr :: "elem \<Rightarrow> string \<Rightarrow> string option" where
  "e_attr (Elem n a t ks) x = map_of a x"

fun descendants :: "elem \<Rightarrow> elem list" where
  "descendants (Elem n a t ks) = concat (map (\<lambda>k. k # descendants k) ks)"

fun all_strings :: "elem \<Rightarrow> string list" where
  "all_strings (Elem n a t ks) = (if t = [] then [] else [t]) @ concat (map all_strings ks)"

fun elem_string :: "elem \<Rightarrow> string option" where
  "elem_string (Elem n a t []) = (if t = [] then None else Some t)"
| "elem_string (Elem n a t [k]) = (if t = [] then elem_string k else None)"
| "elem_string (Elem n a t (k # k' # ks)) = None"

definition pairs :: "char \<Rightarrow> char \<Rightarrow> string \<Rightarrow> bool" where
  "pairs a b s = (count_list s a = count_list s b)"

definition matches :: "string \<Rightarrow> elem \<Rightarrow> bool" where
  "matches s e =
     (if s = ''a[href]'' then e_name e = ''a'' \<and> e_attr e ''href'' \<noteq> None
      else if s = rel_next then e_name e = ''a'' \<and> e_attr e ''rel'' = Some ''next''
      else if take 1 s = ''.'' then e_attr e ''class'' = Some (drop 1 s)
      else e_name e = s)"

definition demo_select :: "elem \<Rightarrow> string \<Rightarrow> error + elem list" where
  "demo_select e s =
     (if pairs (CHR ''['') (CHR '']'') s then Inr (filter (matches s) (descendants e))
      else Inl SelectorSyntaxError)"

definition demo_compile :: "string \<Rightarrow> bool \<Rightarrow> error + string \<times> bool" where
  "demo_compile p i = (if pairs (CHR ''('') (CHR '')'') p then Inr (p, i) else Inl ReError)"

definition demo_search :: "string \<times> bool \<Rightarrow> string \<Rightarrow> bool" where
  "demo_search r s = (if snd r then contains (lower (fst r)) (lower s) else contains (fst r) s)"

definition demo_urljoin :: "string \<Rightarrow> string \<Rightarrow> error + string" where
  "demo_urljoin b u =
     (if b = [] then Inr u
      else if u = [] then Inr b
      else if u = ''//['' then Inl ValueError
      else if take 1 u = ''#''
        then Inr (takeWhile (\<lambda>c. c \<noteq> CHR ''#'') b @ (if drop 1 u = [] then [] else u))
      else if contains ''://'' u then Inr u
      else Inr (b @ u))"

definition demo_parse :: "(string \<times> elem) list \<Rightarrow> string \<Rightarrow> elem" where
  "demo_parse table html =
     (case map_of table html of Some e \<Rightarrow> e | None \<Rightarrow> Elem ''[document]'' [] [] [])"

definition demo_lib :: "(string \<times> elem) list \<Rightarrow> (elem, string \<times> bool) lib" where
  "demo_lib table =
     \<lparr>bs_parse = demo_parse table,
      bs_select = demo_select,
      bs_get = e_attr,
      bs_get_text = (\<lambda>e. join_sp (all_strings e)),
      bs_find_all = (\<lambda>e n. filter (\<lambda>d. e_name d = n) (descendants e)),
      bs_string = elem_string,
      re_compile = demo_compile,
      re_search = demo_search,
      urljoin = demo_urljoin,
      dateparser_parse = (\<lambda>t. None)\<rparr>"

text \<open>A network that serves a table of pages with status 200 and anything else with 404.\<close>

definition demo_web :: "(string \<times> string) list \<Rightarrow> web" where
  "demo_web served history u =
     (case map_of served u of Some html \<Rightarrow> Inr (200, html) | None \<Rightarrow> Inr (404, []))"

text \<open>A rule without any key.\<close>

definition no_selectors :: selectors where
  "no_selectors =
     \<lparr>sel_container = None, sel_title = None, sel_company = None, sel_location = None,
      sel_link = None, sel_posted = None, sel_salary = None, sel_snippet = None,
      sel_base = None, sel_link_pattern = None, sel_next_selector = None\<rparr>"

definition rule_of :: "selectors \<Rightarrow> cfg" where
  "rule_of s =
     selectors.extend no_selectors
       \<lparr>cfg_selectors = Some s, cfg_pages = None, cfg_urls = None, cfg_url = None,
        cfg_default_location = None, cfg_max_pages = None\<rparr>"

section \<open>Definitions for stating the properties\<close>

text \<open>The two postings of the sorting scenario, and a later duplicate of the first.\<close>

definition posting_A :: Job where
  "posting_A =
     \<lparr>source = ''x'', title = ''A'', company = [], location = [], url = ''http://x/1'',
      posted = Some ''1.5.2024'', posted_dt = Some ''2024-05-01'', salary = None,
      snippet = None\<rparr>"

definition posting_B :: Job where
  "posting_B =
     \<lparr>source = ''a'', title = ''B'', company = [], location = [], url = ''http://a/1'',
      posted = Some ''1.5.2024'', posted_dt = Some ''2024-05-01'', salary = None,
      snippet = None\<rparr>"

definition posting_A2 :: Job where
  "posting_A2 = posting_A\<lparr>title := ''A again'', url := '' HTTP://X/1 ''\<rparr>"

text \<open>
  The identity key in the words of the specification: the URL lower-cased, then trimmed.
\<close>

definition identity_key :: "Job \<Rightarrow> string" where
  "identity_key p = strip (lower (url p))"

text \<open>
  The texts a filter can search: the four fields joined by single spaces, and the four
  fields concatenated, one right after the other; a term being a substring of a text
  without regard to case; and the posting of the example of the filter.
\<close>

definition spaced_text :: "Job \<Rightarrow> string" where
  "spaced_text j =
     title j @ '' '' @ company j @ '' '' @ location j @ '' '' @ or_empty (snippet j)"

definition concatenation :: "Job \<Rightarrow> string" where
  "concatenation j = title j @ company j @ location j @ or_empty (snippet j)"

definition ci_substring :: "string \<Rightarrow> string \<Rightarrow> bool" where
  "ci_substring k t = sublist (lower k) (lower t)"

definition cook_at_acme :: Job where
  "cook_at_acme =
     \<lparr>source = ''s'', title = ''Cook'', company = ''Acme'', location = ''Espoo'',
      url = ''http://x/1'', posted = None, posted_dt = None, salary = None, snippet = None\<rparr>"

text \<open>
  What it is for the libraries to accept what the extractor hands them on a page. A
  selector is accepted when \<open>select\<close> returns for it, on whatever node. The link targets
  that the extractor hands to \<open>urljoin\<close> are, in the structured pass, the non-empty link
  target of each card and, in the fallback pass, the non-empty link targets of the
  anchors \<open>a[href]\<close> that the pattern matches. The libraries accept a rule on a page when
  every selector the rule sets (and \<open>a[href]\<close>) is accepted, \<open>link_pattern\<close>, when set,
  compiles, and \<open>urljoin\<close> returns for the base with each of these link targets. Then
  the pages and rules of the examples of the extractor.
\<close>

definition selector_ok :: "('n, 'r) lib \<Rightarrow> string option \<Rightarrow> bool" where
  "selector_ok l sel = (truthy sel \<longrightarrow> (\<forall>n. \<exists>ms. bs_select l n (or_empty sel) = Inr ms))"

definition joins :: "('n, 'r) lib \<Rightarrow> string \<Rightarrow> string \<Rightarrow> bool" where
  "joins l base h = (case urljoin l base h of Inl e \<Rightarrow> False | Inr u \<Rightarrow> True)"

definition card_targets :: "('n, 'r) lib \<Rightarrow> 'n \<Rightarrow> selectors \<Rightarrow> string list" where
  "card_targets l soup sels =
     (if truthy (sel_container sels)
      then (case bs_select l soup (or_empty (sel_container sels)) of
              Inl e \<Rightarrow> []
            | Inr cards \<Rightarrow>
                filter (\<lambda>h. h \<noteq> [])
                  (concat (map (\<lambda>cd. case sel_attr l cd (sel_link sels) ''href'' of
                                        Inl e \<Rightarrow> []
                                      | Inr None \<Rightarrow> []
                                      | Inr (Some h) \<Rightarrow> [h]) cards)))
      else [])"

definition anchor_targets :: "('n, 'r) lib \<Rightarrow> 'n \<Rightarrow> selectors \<Rightarrow> string list" where
  "anchor_targets l soup sels =
     (if truthy (sel_link_pattern sels)
      then (case re_compile l (or_empty (sel_link_pattern sels)) False of
              Inl e \<Rightarrow> []
            | Inr pat \<Rightarrow>
                (case bs_select l soup ''a[href]'' of
                   Inl e \<Rightarrow> []
                 | Inr anchors \<Rightarrow>
                     filter (\<lambda>h. h \<noteq> [] \<and> re_search l pat h)
                       (map (\<lambda>a. or_empty (bs_get l a ''href'')) anchors)))
      else [])"

definition libraries_accept :: "('n, 'r) lib \<Rightarrow> 'n \<Rightarrow> selectors \<Rightarrow> bool" where
  "libraries_accept l soup sels =
     (selector_ok l (sel_container sels) \<and> selector_ok l (sel_title sels) \<and>
      selector_ok l (sel_company sels) \<and> selector_ok l (sel_location sels) \<and>
      selector_ok l (sel_link sels) \<and> selector_ok l (sel_posted sels) \<and>
      selector_ok l (sel_salary sels) \<and> selector_ok l (sel_snippet sels) \<and>
      selector_ok l (Some ''a[href]'') \<and>
      (truthy (sel_link_pattern sels) \<longrightarrow>
         (\<exists>r. re_compile l (or_empty (sel_link_pattern sels)) False = Inr r)) \<and>
      list_all (joins l (base_of sels)) (card_targets l soup sels) \<and>
      list_all (joins l (base_of sels)) (anchor_targets l soup sels))"

definition page_cards :: elem where
  "page_cards =
     Elem ''[document]'' [] []
       [Elem ''div'' [(''class'', ''job'')] []
          [Elem ''a'' [(''class'', ''t''), (''href'', ''http://x/Job'')] ''Cook'' []],
        Elem ''a'' [(''href'', ''http://x/job'')] ''Cook wanted'' []]"

definition rule_cards :: cfg where
  "rule_cards =
     rule_of (no_selectors\<lparr>sel_container := Some ''.job'', sel_title := Some ''.t'',
       sel_link := Some ''.t'', sel_link_pattern := Some ''job''\<rparr>)"

definition cook_card :: Job where
  "cook_card =
     \<lparr>source = ''s'', title = ''Cook'', company = [], location = [], url = ''http://x/Job'',
      posted = Some [], posted_dt = None, salary = Some [], snippet = Some []\<rparr>"

definition cook_link :: Job where
  "cook_link =
     \<lparr>source = ''s'', title = ''Cook wanted'', company = [], location = [],
      url = ''http://x/job'', posted = None, posted_dt = None, salary = None,
      snippet = Some []\<rparr>"


definition page_hash :: elem where
  "page_hash = Elem ''[document]'' [] [] [Elem ''a'' [(''href'', ''#'')] ''Apply'' []]"

definition rule_hash :: cfg where
  "rule_hash = rule_of (no_selectors\<lparr>sel_base := Some ''#'', sel_link_pattern := Some ''#''\<rparr>)"

definition page_rel :: elem where
  "page_rel =
     Elem ''[document]'' [] []
       [Elem ''div'' [(''class'', ''job'')] []
          [Elem ''a'' [(''class'', ''t''), (''href'', ''job/1'')] ''Cook'' []],
        Elem ''a'' [(''href'', ''job/2'')] ''Waiter'' [],
        Elem ''a'' [(''href'', ''about'')] ''About'' []]"

definition sels_rel :: selectors where
  "sels_rel =
     no_selectors\<lparr>sel_container := Some ''.job'', sel_title := Some ''.t'',
       sel_link := Some ''.t'', sel_base := Some ''http://x/'',
       sel_link_pattern := Some ''job''\<rparr>"

definition page_bad_target :: elem where
  "page_bad_target = Elem ''[document]'' [] [] [Elem ''a'' [(''href'', ''//['')] ''Apply'' []]"


definition lib_rel :: "(elem, string \<times> bool) lib" where
  "lib_rel = demo_lib [(''p'', page_rel), (''q'', page_bad_target)]"

definition wanted :: "('n, 'r) lib \<Rightarrow> 'r \<Rightarrow> 'n \<Rightarrow> bool" where
  "wanted l pat a =
     (or_empty (bs_get l a ''href'') \<noteq> [] \<and> re_search l pat (or_empty (bs_get l a ''href'')))"

definition targets :: "('n, 'r) lib \<Rightarrow> 'r \<Rightarrow> string \<Rightarrow> 'n list \<Rightarrow> string set" where
  "targets l pat base anchors =
     {u. \<exists>a \<in> set anchors. wanted l pat a \<and>
           urljoin l base (or_empty (bs_get l a ''href'')) = Inr u}"

text \<open>
  What each tier of the search for the next page finds, the first anchor matching any
  phrase (the reading of the third tier that the program does not follow), and the pages
  of the examples.
\<close>

definition tier1 :: "('n, 'r) lib \<Rightarrow> 'n \<Rightarrow> selectors \<Rightarrow> error + string option" where
  "tier1 l soup sels =
     (if truthy (sel_next_selector sels)
      then map_sum id (href_of l) (select_one l soup (or_empty (sel_next_selector sels)))
      else Inr None)"

definition tier2 :: "('n, 'r) lib \<Rightarrow> 'n \<Rightarrow> error + string option" where
  "tier2 l soup = map_sum id (href_of l) (select_one l soup rel_next)"

definition phrase_href :: "('n, 'r) lib \<Rightarrow> 'n \<Rightarrow> string \<Rightarrow> error + string option" where
  "phrase_href l soup txt =
     (case re_compile l txt True of
        Inl e \<Rightarrow> Inl e
      | Inr pat \<Rightarrow> Inr (href_of l (find_a l soup pat)))"

definition first_phrase_anchor :: "('n, 'r) lib \<Rightarrow> 'n \<Rightarrow> string list \<Rightarrow> 'n option" where
  "first_phrase_anchor l soup txts =
     find (\<lambda>a. list_ex (\<lambda>txt. case re_compile l txt True of
                               Inl e \<Rightarrow> False
                             | Inr pat \<Rightarrow> (case bs_string l a of
                                             None \<Rightarrow> False
                                           | Some s \<Rightarrow> re_search l pat s)) txts)
       (bs_find_all l soup ''a'')"

definition page_two_links :: elem where
  "page_two_links =
     Elem ''[document]'' [] []
       [Elem ''a'' [(''href'', ''/more'')] ''Load more'' [],
        Elem ''a'' [(''href'', ''/n'')] ''Next'' []]"

definition page_tiers :: elem where
  "page_tiers =
     Elem ''[document]'' [] []
       [Elem ''a'' [(''href'', ''/t'')] ''next'' [],
        Elem ''a'' [(''rel'', ''next''), (''href'', ''/r'')] ''2'' [],
        Elem ''a'' [(''class'', ''more''), (''href'', ''/s'')] ''3'' []]"

text \<open>
  What the result list of a site is to be: of the postings the extractor returned, the
  first of each identity key, in the order of discovery. The invariant of the crawl says
  so, up to the cap. Then the site of the examples of the crawl: page 1 holds one posting
  and links to page 2, which holds three postings, the first of them under the URL of the
  posting of page 1 in other letter case, and links back to page 1; the second start URL
  is not served.
\<close>

function first_by_key :: "Job list \<Rightarrow> Job list" where
  "first_by_key [] = []"
| "first_by_key (j # js) = j # first_by_key (filter (\<lambda>x. key x \<noteq> key j) js)"
  by pat_completeness auto
termination
  by (relation "measure length") (auto simp: less_Suc_eq_le)

definition site_inv :: "int \<Rightarrow> crawl_state \<Rightarrow> bool" where
  "site_inv m st =
     (results st = take (nat m) (first_by_key (extracted st)) \<and>
      seen st = key ` set (results st))"

definition job_card :: "string \<Rightarrow> string \<Rightarrow> elem" where
  "job_card t u =
     Elem ''div'' [(''class'', ''job'')] [] [Elem ''a'' [(''class'', ''t''), (''href'', u)] t []]"

definition next_link :: "string \<Rightarrow> elem" where
  "next_link u = Elem ''a'' [(''rel'', ''next''), (''href'', u)] ''>'' []"

definition page_one :: elem where
  "page_one =
     Elem ''[document]'' [] [] [job_card ''Cook'' ''http://x/Cook'', next_link ''http://x/2'']"

definition page_two :: elem where
  "page_two =
     Elem ''[document]'' [] []
       [job_card ''Cook again'' ''http://x/cook'', job_card ''Waiter'' ''http://x/waiter'',
        job_card ''Baker'' ''http://x/baker'', next_link ''http://x/1'']"

definition site_lib :: "(elem, string \<times> bool) lib" where
  "site_lib = demo_lib [(''<1>'', page_one), (''<2>'', page_two)]"

definition site_web :: web where
  "site_web = demo_web [(''http://x/1'', ''<1>''), (''http://x/2'', ''<2>'')]"

definition rule_site :: cfg where
  "rule_site =
     (rule_of (no_selectors\<lparr>sel_container := Some ''.job'', sel_title := Some ''.t'',
        sel_link := Some ''.t''\<rparr>))\<lparr>cfg_urls := Some [''http://x/1'', ''http://x/404'']\<rparr>"

definition found :: "string \<Rightarrow> string \<Rightarrow> Job" where
  "found t u =
     \<lparr>source = ''s'', title = t, company = [], location = [], url = u,
      posted = Some [], posted_dt = None, salary = Some [], snippet = Some []\<rparr>"

section \<open>Properties\<close>

subsection \<open>Strings\<close>

lemma contains_sublist: "contains n h = sublist n h"
  by (induction h) (auto simp: sublist_Cons_right)

lemma lower_space: "lower_char (CHR '' '') = CHR '' ''"
  by code_simp

lemma job_text_spaced: "job_text j = lower (spaced_text j)"
  by (simp add: job_text_def spaced_text_def lower_def lower_space)

lemma find_append2:
  "find P (xs @ ys) = (case find P xs of None \<Rightarrow> find P ys | Some x \<Rightarrow> Some x)"
  by (induction xs) auto

lemma is_space_lower_char: "is_space (lower_char c) = is_space c"
  by (auto simp: is_space_def lower_char_def Let_def)

lemma strip_lower: "strip (lower u) = lower (strip u)"
proof -
  have "is_space \<circ> lower_char = is_space"
    by (rule ext) (simp add: is_space_lower_char)
  then show ?thesis
    by (simp add: strip_def lower_def dropWhile_map rev_map)
qed

lemma dropWhile_all: "list_all P xs \<Longrightarrow> dropWhile P (xs @ ys) = dropWhile P ys"
  by (induction xs) simp_all

lemma strip_spaces:
  assumes "list_all is_space a" "list_all is_space b"
  shows "strip (a @ u @ b) = strip u"
proof -
  have 1: "dropWhile is_space (a @ u @ b) = dropWhile is_space (u @ b)"
    using assms(1) by (rule dropWhile_all)
  have b: "list_all is_space (rev b)" using assms(2) by (simp add: list_all_iff)
  show ?thesis
  proof (cases "list_all is_space u")
    case True
    have e1: "dropWhile is_space (u @ b) = []"
      using True assms(2) by (auto simp: dropWhile_eq_Nil_conv list_all_iff)
    have e2: "dropWhile is_space u = []"
      using True by (auto simp: dropWhile_eq_Nil_conv list_all_iff)
    show ?thesis unfolding strip_def 1 e1 e2 by simp
  next
    case False
    then obtain x where "x \<in> set u" "\<not> is_space x" by (auto simp: list_all_iff)
    then have "dropWhile is_space (u @ b) = dropWhile is_space u @ b"
      by (rule dropWhile_append1)
    then show ?thesis
      unfolding strip_def 1 using dropWhile_all [OF b] by simp
  qed
qed

subsection \<open>The sort\<close>

lemma sort_k_upd:
  "sort_k (j\<lparr>posted_dt := Some ''2024-05-01'', source := s\<rparr>) = (''2024-05-01'', s)"
  by (simp add: sort_k_def truthy_def or_empty_def)

lemma str_a_le_x: "''a'' \<le> ''x''" "\<not> ''x'' \<le> ''a''"
  by code_simp+

text \<open>
  C3, as the program has it. Two postings of the same date 2024-05-01, the first of source
  "x" and the second of source "a", are sorted into the order they came in: the key is
  descending, and the pair (date, "x") is greater than the pair (date, "a"). So the input
  [A, B] gives [A, B], not [B, A].
\<close>

theorem sort_same_date_keeps_x_before_a:
  "sort_jobs [a\<lparr>posted_dt := Some ''2024-05-01'', source := ''x''\<rparr>,
              b\<lparr>posted_dt := Some ''2024-05-01'', source := ''a''\<rparr>] =
     [a\<lparr>posted_dt := Some ''2024-05-01'', source := ''x''\<rparr>,
      b\<lparr>posted_dt := Some ''2024-05-01'', source := ''a''\<rparr>]"
  by (simp add: sort_jobs_def sort_k_upd less_eq_prod_def str_a_le_x del: Job.simps)

text \<open>C3 as it is written fails on the scenario's own input: the output is not [B, A].\<close>

theorem sort_scenario_not_B_A: "sort_jobs [posting_A, posting_B] \<noteq> [posting_B, posting_A]"
  by code_simp

subsection \<open>The deduplication\<close>

lemma dedup_fold_lookup:
  "map_of (fold (\<lambda>j d. AList.update (key j) j d) js d) k =
     (case find (\<lambda>x. key x = k) (rev js) of Some j \<Rightarrow> Some j | None \<Rightarrow> map_of d k)"
proof (induction js arbitrary: d)
  case Nil
  then show ?case by simp
next
  case (Cons j js)
  show ?case
    by (simp add: Cons.IH find_append2 update_conv' split: option.splits)
qed

lemma dedup_fold_distinct:
  "distinct (map fst d) \<Longrightarrow> distinct (map fst (fold (\<lambda>j d. AList.update (key j) j d) js d))"
  by (induction js arbitrary: d) (simp_all add: distinct_update)

lemma dedup_dict_entry:
  assumes "(k, j) \<in> set (dedup_dict js)"
  shows "find (\<lambda>x. key x = k) (rev js) = Some j"
proof -
  have "distinct (map fst (dedup_dict js))"
    unfolding dedup_dict_def by (rule dedup_fold_distinct) simp
  with assms have "map_of (dedup_dict js) k = Some j" by simp
  then show ?thesis
    unfolding dedup_dict_def by (simp add: dedup_fold_lookup split: option.splits)
qed

lemma dedup_dict_key: "p \<in> set (dedup_dict js) \<Longrightarrow> key (snd p) = fst p"
  using dedup_dict_entry [of "fst p" "snd p" js] by (auto simp: find_Some_iff)

lemma dedup_keys: "map key (dedupe js) = map fst (dedup_dict js)"
  unfolding dedupe_def by (simp add: dedup_dict_key)

lemma dedup_dict_dom: "fst ` set (dedup_dict js) = key ` set js"
proof -
  have "fst ` set (dedup_dict js) = dom (map_of (dedup_dict js))"
    by (simp add: dom_map_of_conv_image_fst)
  also have "\<dots> = {k. find (\<lambda>x. key x = k) (rev js) \<noteq> None}"
    unfolding dedup_dict_def dom_def by (auto simp: dedup_fold_lookup split: option.splits)
  also have "\<dots> = key ` set js"
    by (auto simp: find_None_iff)
  finally show ?thesis .
qed

lemma key_identity_key: "key p = identity_key p"
  by (simp add: key_def identity_key_def strip_lower)

lemma key_collapse:
  assumes "list_all is_space a" "list_all is_space b" "lower u = lower (url p)"
  shows "key (p\<lparr>url := a @ u @ b\<rparr>) = key p"
proof -
  have "key (p\<lparr>url := a @ u @ b\<rparr>) = lower (strip u)"
    using assms(1,2) by (simp add: key_def strip_spaces)
  also have "\<dots> = strip (lower (url p))" using assms(3) by (simp add: strip_lower [symmetric])
  also have "\<dots> = key p" by (simp add: key_def strip_lower)
  finally show ?thesis .
qed

text \<open>
  C6. The deduplication of \<open>main\<close> is keyed by the identity key and the last posting
  wins. The key the program computes, the URL trimmed and then lower-cased, is the key of
  the specification, the URL lower-cased and then trimmed; so two postings whose URLs
  differ only in letter case and in whitespace around them have the same key. The keys
  of the output are pairwise different, they are the keys of the input, and each posting
  of the output is the last posting of the input with its key.
\<close>

theorem dedupe_last_wins:
  "key p = strip (lower (url p)) \<and>
   (list_all is_space a \<and> list_all is_space b \<and> lower u = lower (url p) \<longrightarrow>
      key (p\<lparr>url := a @ u @ b\<rparr>) = key p) \<and>
   distinct (map identity_key (dedupe js)) \<and>
   set (map identity_key (dedupe js)) = set (map identity_key js) \<and>
   (\<forall>j \<in> set (dedupe js). find (\<lambda>x. identity_key x = identity_key j) (rev js) = Some j)"
proof -
  have k: "identity_key = key" by (rule ext) (simp add: key_identity_key)
  have "distinct (map key (dedupe js))"
    unfolding dedup_keys dedup_dict_def by (rule dedup_fold_distinct) simp
  moreover have "set (map key (dedupe js)) = set (map key js)"
    unfolding dedup_keys by (simp add: dedup_dict_dom)
  moreover have "find (\<lambda>x. key x = key j) (rev js) = Some j" if "j \<in> set (dedupe js)" for j
  proof -
    from that obtain q where q: "q \<in> set (dedup_dict js)" "j = snd q"
      unfolding dedupe_def by auto
    then have "(key j, j) \<in> set (dedup_dict js)"
      using dedup_dict_key [of q js] by (cases q) auto
    then show ?thesis by (rule dedup_dict_entry)
  qed
  moreover have "key p = strip (lower (url p))"
    by (simp add: key_def strip_lower)
  ultimately show ?thesis
    unfolding k using key_collapse [of a b u p] by blast
qed

lemma dedupe_example: "dedupe [posting_A, posting_B, posting_A2] = [posting_A2, posting_B]"
  by code_simp

lemma posting_A2_url:
  "posting_A2 = posting_A\<lparr>title := ''A again'', url := '' '' @ ''HTTP://X/1'' @ '' ''\<rparr>"
  "list_all is_space '' '' \<and> list_all is_space '' '' \<and> lower ''HTTP://X/1'' = lower (url posting_A)"
  "url posting_A2 \<noteq> url posting_A"
  by code_simp+

text \<open>
  Of the postings A, B and a later A2 whose URL is the URL of A in capitals between two
  spaces, the output holds A2 in the place of A, and B.
\<close>

theorem dedupe_last_wins_witness:
  "dedupe [posting_A, posting_B, posting_A2] = [posting_A2, posting_B] \<and>
   url posting_A2 \<noteq> url posting_A \<and>
   key posting_A2 = key posting_A \<and>
   find (\<lambda>x. identity_key x = identity_key posting_A2) (rev [posting_A, posting_B, posting_A2])
     = Some posting_A2"
proof -
  note t = dedupe_last_wins [of posting_A "'' ''" "'' ''" "''HTTP://X/1''"
      "[posting_A, posting_B, posting_A2]"]
  have "key (posting_A\<lparr>url := '' '' @ ''HTTP://X/1'' @ '' ''\<rparr>) = key posting_A"
    using t posting_A2_url(2) by blast
  then have "key posting_A2 = key posting_A"
    by (simp add: posting_A2_url(1) key_def)
  moreover have "posting_A2 \<in> set (dedupe [posting_A, posting_B, posting_A2])"
    by (simp add: dedupe_example)
  with t have "find (\<lambda>x. identity_key x = identity_key posting_A2)
      (rev [posting_A, posting_B, posting_A2]) = Some posting_A2"
    by blast
  ultimately show ?thesis using dedupe_example posting_A2_url(3) by simp
qed

subsection \<open>The filter\<close>

lemma ok_iff:
  "ok kws locs j \<longleftrightarrow>
     (kws = [] \<or> (\<exists>k \<in> set kws. ci_substring k (spaced_text j))) \<and>
     (locs = [] \<or> (\<exists>x \<in> set locs. ci_substring x (spaced_text j)))"
  by (simp add: ok_def Let_def list_ex_iff contains_sublist job_text_spaced ci_substring_def)

text \<open>
  C8, as the program has it. With no keyword and no location the filter returns its
  input. Otherwise it keeps, in their order, the postings for which (there is no keyword,
  or some keyword is a substring without regard to case of the title, company, location
  and snippet joined by single spaces) and (there is no location term, or some location
  term is such a substring of the same text).
\<close>

theorem filter_jobs_spec:
  "filter_jobs jobs kws locs =
     (if kws = [] \<and> locs = [] then jobs
      else filter (\<lambda>j. (kws = [] \<or> (\<exists>k \<in> set kws. ci_substring k (spaced_text j))) \<and>
                       (locs = [] \<or> (\<exists>x \<in> set locs. ci_substring x (spaced_text j)))) jobs)"
  by (auto simp: filter_jobs_def ok_iff intro!: filter_cong)

theorem filter_jobs_spec_witness:
  "filter_jobs [posting_A, posting_B\<lparr>location := ''Espoo''\<rparr>] [''b''] [''ESPOO''] =
     [posting_B\<lparr>location := ''Espoo''\<rparr>]"
  using filter_jobs_spec
    [of "[posting_A, posting_B\<lparr>location := ''Espoo''\<rparr>]" "[''b'']" "[''ESPOO'']"]
  by code_simp

lemma cook_at_acme_text:
  "contains (lower ''cookacme'') (lower (concatenation cook_at_acme))"
  "\<not> contains (lower ''k a'') (lower (concatenation cook_at_acme))"
  by code_simp+

text \<open>
  C8 as it is written fails: the text searched is not the concatenation of the four
  fields. For the posting of title "Cook" and company "Acme", the keyword "cookacme" is a
  substring of the concatenation and the posting is dropped; the keyword "k a" is no
  substring of the concatenation and the posting is kept.
\<close>

theorem filter_not_by_concatenation:
  "ci_substring ''cookacme'' (concatenation cook_at_acme) \<and>
   filter_jobs [cook_at_acme] [''cookacme''] [] = [] \<and>
   \<not> ci_substring ''k a'' (concatenation cook_at_acme) \<and>
   filter_jobs [cook_at_acme] [''k a''] [] = [cook_at_acme]"
proof -
  have "filter_jobs [cook_at_acme] [''cookacme''] [] = []"
    "filter_jobs [cook_at_acme] [''k a''] [] = [cook_at_acme]"
    by code_simp+
  then show ?thesis
    using cook_at_acme_text by (simp add: ci_substring_def contains_sublist)
qed

subsection \<open>The extractor\<close>

lemma ebind_simps [simp]: "ebind (Inr x) f = f x" "ebind (Inl e) f = Inl e"
  by (simp_all add: ebind_def)
















lemma selectors_of_rule_of: "selectors_of (rule_of s) = s"
  by (simp add: selectors_of_def rule_of_def selectors.extend_def no_selectors_def)










text \<open>
  The link targets matter: on the page \<open><a href="//[">Apply</a>\<close> with the base
  \<open>http://x/\<close> and the link pattern \<open>/\<close>, \<open>urljoin\<close> refuses the link target, the
  libraries do not accept the rule on this page, and the exception leaves the extractor.
\<close>

lemma bad_link_target_raises:
  "extract_jobs_from_html lib_rel ''q'' (rule_of (sels_rel\<lparr>sel_link_pattern := Some ''/''\<rparr>))
     ''s'' None = Inl ValueError \<and>
   \<not> libraries_accept lib_rel (bs_parse lib_rel ''q'')
       (selectors_of (rule_of (sels_rel\<lparr>sel_link_pattern := Some ''/''\<rparr>)))"
proof -
  have "\<not> list_all (joins lib_rel (base_of (sels_rel\<lparr>sel_link_pattern := Some ''/''\<rparr>)))
      (anchor_targets lib_rel (bs_parse lib_rel ''q'') (sels_rel\<lparr>sel_link_pattern := Some ''/''\<rparr>))"
    by code_simp
  moreover have "extract_jobs_from_html lib_rel ''q''
      (rule_of (sels_rel\<lparr>sel_link_pattern := Some ''/''\<rparr>)) ''s'' None = Inl ValueError"
    by code_simp
  ultimately show ?thesis
    by (simp add: libraries_accept_def selectors_of_rule_of)
qed


text \<open>
  C9 fails in the fallback pass: it tests the link target before \<open>urljoin\<close> and not the
  URL after it, as the structured pass does. With the base \<open>#\<close> and the anchor
  \<open><a href="#">Apply</a>\<close>, \<open>urljoin\<close> gives the empty string and the posting returned
  has an empty URL.
\<close>

theorem fallback_gives_empty_url:
  "extract_jobs_from_html (demo_lib [(''p'', page_hash)]) ''p'' rule_hash ''s'' None =
     Inr [\<lparr>source = ''s'', title = ''Apply'', company = [], location = [], url = [],
           posted = None, posted_dt = None, salary = None, snippet = Some []\<rparr>]"
  by code_simp

text \<open>
  C2 as it is written fails: on the page
  \<open><div class="job"><a class="t" href="http://x/Job">Cook</a></div>
  <a href="http://x/job">Cook wanted</a>\<close> the structured pass gives one posting, and the
  fallback pass adds a posting for the second anchor although its identity key is the key
  of the first posting: the URLs differ in case only.
\<close>

theorem fallback_same_key_twice:
  "structured_pass (demo_lib [(''p'', page_cards)]) (bs_parse (demo_lib [(''p'', page_cards)]) ''p'')
      (selectors_of rule_cards) ''s'' None = Inr [cook_card] \<and>
   extract_jobs_from_html (demo_lib [(''p'', page_cards)]) ''p'' rule_cards ''s'' None =
      Inr [cook_card, cook_link] \<and>
   key cook_link = key cook_card"
  by code_simp

lemma targets_Cons:
  "targets l pat base (a # anchors) =
     (if wanted l pat a then
        (case urljoin l base (or_empty (bs_get l a ''href'')) of
           Inr u \<Rightarrow> insert u (targets l pat base anchors)
         | Inl e \<Rightarrow> targets l pat base anchors)
      else targets l pat base anchors)"
  by (auto simp: targets_def split: sum.splits)

lemma harvest_links_urls:
  "harvest_links l pat base src dl anchors out = Inr out' \<Longrightarrow>
     \<exists>new. out' = out @ new \<and> distinct (map url new) \<and>
       set (map url new) = targets l pat base anchors - set (map url out)"
proof (induction anchors arbitrary: out)
  case Nil
  then show ?case by (simp add: targets_def)
next
  case (Cons a anchors)
  let ?h = "or_empty (bs_get l a ''href'')"
  show ?case
  proof (cases "wanted l pat a")
    case False
    then have "harvest_links l pat base src dl anchors out = Inr out'"
      using Cons.prems by (simp add: wanted_def Let_def split: if_splits)
    from Cons.IH [OF this] False show ?thesis by (simp add: targets_Cons)
  next
    case True
    then obtain u where u: "urljoin l base ?h = Inr u"
      using Cons.prems by (cases "urljoin l base ?h") (auto simp: wanted_def Let_def)
    show ?thesis
    proof (cases "list_ex (\<lambda>j. url j = u) out")
      case seen: True
      then have "harvest_links l pat base src dl anchors out = Inr out'"
        using Cons.prems True u by (simp add: wanted_def Let_def)
      from Cons.IH [OF this] obtain new where
        new: "out' = out @ new" "distinct (map url new)"
          "set (map url new) = targets l pat base anchors - set (map url out)"
        by blast
      have "u \<in> set (map url out)" using seen by (auto simp: list_ex_iff)
      then have "targets l pat base (a # anchors) - set (map url out) =
          targets l pat base anchors - set (map url out)"
        using True u by (auto simp: targets_Cons)
      with new show ?thesis by blast
    next
      case fresh: False
      define t where "t = (if normalize_space (Some (bs_get_text l a)) \<noteq> []
        then normalize_space (Some (bs_get_text l a)) else ''Job posting'')"
      define j where "j = \<lparr>source = src, title = t, company = [],
        location = or_empty dl, url = u, posted = None, posted_dt = None, salary = None,
        snippet = Some []\<rparr>"
      have "harvest_links l pat base src dl anchors (out @ [j]) = Inr out'"
        using Cons.prems True u fresh by (simp add: wanted_def Let_def j_def t_def)
      from Cons.IH [OF this] obtain new where
        new: "out' = (out @ [j]) @ new" "distinct (map url new)"
          "set (map url new) = targets l pat base anchors - set (map url (out @ [j]))"
        by blast
      have uj: "url j = u" by (simp add: j_def)
      have nu: "u \<notin> set (map url out)" using fresh by (auto simp: list_ex_iff)
      have "out' = out @ (j # new)" using new(1) by simp
      moreover have "distinct (map url (j # new))"
        using new(2,3) uj by auto
      moreover have "set (map url (j # new)) =
          targets l pat base (a # anchors) - set (map url out)"
        using new(3) uj nu True u by (auto simp: targets_Cons)
      ultimately show ?thesis by blast
    qed
  qed
qed

text \<open>
  C2, as the program has it. When the extractor returns and a link pattern is set, its
  result is the postings of the structured pass followed by new postings whose URLs are
  pairwise different and are exactly the resolved URLs of the anchors with a non-empty
  link target that the pattern matches somewhere, less the URLs of the structured pass.
  So an anchor gets a posting exactly when no posting already in the list, of the
  structured pass or of an earlier anchor, has the very same URL string.
\<close>

theorem fallback_by_exact_url:
  assumes "extract_jobs_from_html l html rules src dl = Inr jobs"
    and "truthy (sel_link_pattern (selectors_of rules))"
  shows "\<exists>out pat anchors new.
      structured_pass l (bs_parse l html) (selectors_of rules) src dl = Inr out \<and>
      re_compile l (or_empty (sel_link_pattern (selectors_of rules))) False = Inr pat \<and>
      bs_select l (bs_parse l html) ''a[href]'' = Inr anchors \<and>
      jobs = out @ new \<and> distinct (map url new) \<and>
      set (map url new) =
        targets l pat (base_of (selectors_of rules)) anchors - set (map url out)"
proof -
  let ?soup = "bs_parse l html" and ?sels = "selectors_of rules"
  obtain out where out: "structured_pass l ?soup ?sels src dl = Inr out"
    using assms(1)
    by (cases "structured_pass l ?soup ?sels src dl")
      (simp_all add: extract_jobs_from_html_def Let_def)
  then have fb: "fallback_pass l ?soup ?sels src dl out = Inr jobs"
    using assms(1) by (simp add: extract_jobs_from_html_def Let_def)
  obtain pat where pat: "re_compile l (or_empty (sel_link_pattern ?sels)) False = Inr pat"
    using fb assms(2)
    by (cases "re_compile l (or_empty (sel_link_pattern ?sels)) False")
      (simp_all add: fallback_pass_def)
  obtain anchors where anchors: "bs_select l ?soup ''a[href]'' = Inr anchors"
    using fb assms(2) pat
    by (cases "bs_select l ?soup ''a[href]''") (simp_all add: fallback_pass_def)
  have "harvest_links l pat (base_of ?sels) src dl anchors out = Inr jobs"
    using fb assms(2) pat anchors by (simp add: fallback_pass_def)
  from harvest_links_urls [OF this] out pat anchors show ?thesis by blast
qed

lemma cards_extracted:
  "extract_jobs_from_html (demo_lib [(''p'', page_cards)]) ''p'' rule_cards ''s'' None =
     Inr [cook_card, cook_link]"
  by code_simp

lemma cards_pattern: "truthy (sel_link_pattern (selectors_of rule_cards))"
  by code_simp

theorem fallback_by_exact_url_witness:
  "\<exists>out pat anchors new.
      structured_pass (demo_lib [(''p'', page_cards)])
        (bs_parse (demo_lib [(''p'', page_cards)]) ''p'') (selectors_of rule_cards) ''s'' None
        = Inr out \<and>
      re_compile (demo_lib [(''p'', page_cards)])
        (or_empty (sel_link_pattern (selectors_of rule_cards))) False = Inr pat \<and>
      bs_select (demo_lib [(''p'', page_cards)])
        (bs_parse (demo_lib [(''p'', page_cards)]) ''p'') ''a[href]'' = Inr anchors \<and>
      [cook_card, cook_link] = out @ new \<and> distinct (map url new) \<and>
      set (map url new) =
        targets (demo_lib [(''p'', page_cards)]) pat (base_of (selectors_of rule_cards)) anchors
          - set (map url out)"
  by (rule fallback_by_exact_url [OF cards_extracted cards_pattern])

subsection \<open>The next page\<close>

lemma href_of_None [simp]: "href_of l None = None"
  by (simp add: href_of_def)

lemma text_heuristics_none:
  "(\<forall>t \<in> set txts. phrase_href l soup t = Inr None) \<Longrightarrow>
     text_heuristics l soup base txts = Inr None"
  by (induction txts) (auto simp: phrase_href_def split: sum.splits)

lemma text_heuristics_first:
  "(\<forall>t \<in> set pre. phrase_href l soup t = Inr None) \<Longrightarrow>
   phrase_href l soup t = Inr (Some h) \<Longrightarrow>
     text_heuristics l soup base (pre @ t # post) = map_sum id Some (urljoin l base h)"
  by (induction pre) (auto simp: phrase_href_def split: sum.splits)

lemma find_next_url_tier1:
  "tier1 l soup sels = Inr (Some h) \<Longrightarrow>
     find_next_url l soup sels = map_sum id Some (urljoin l (base_of sels) h)"
  by (auto simp: find_next_url_def tier1_def ebind_def Let_def
      split: sum.splits if_splits option.splits)

lemma find_next_url_tier2:
  "tier1 l soup sels = Inr None \<Longrightarrow> tier2 l soup = Inr (Some h) \<Longrightarrow>
     find_next_url l soup sels = map_sum id Some (urljoin l (base_of sels) h)"
  by (auto simp: find_next_url_def tier1_def tier2_def ebind_def Let_def
      split: sum.splits if_splits option.splits)

lemma find_next_url_tier3:
  "tier1 l soup sels = Inr None \<Longrightarrow> tier2 l soup = Inr None \<Longrightarrow>
     find_next_url l soup sels = text_heuristics l soup (base_of sels) next_phrases"
  by (auto simp: find_next_url_def tier1_def tier2_def ebind_def Let_def
      split: sum.splits if_splits option.splits)

text \<open>
  C7, as the program has it. The next URL is looked for in three tiers, and what a tier
  finds is resolved against the base. (1) When \<open>next_selector\<close> is set and its first match
  has a non-empty link target, that target is the result. (2) Otherwise, when the first
  match of the selector \<open>a[rel="next"]\<close> has a non-empty link target, that target is.
  (3) Otherwise the four phrases are tried in their order: the result is for the first
  phrase whose first matching anchor has a non-empty link target, that target; the order
  of the phrases comes before the order of the anchors on the page. When no phrase has
  such an anchor the result is none.
\<close>

theorem find_next_url_precedence:
  "(tier1 l soup sels = Inr (Some h) \<longrightarrow>
      find_next_url l soup sels = map_sum id Some (urljoin l (base_of sels) h)) \<and>
   (tier1 l soup sels = Inr None \<and> tier2 l soup = Inr (Some h) \<longrightarrow>
      find_next_url l soup sels = map_sum id Some (urljoin l (base_of sels) h)) \<and>
   (tier1 l soup sels = Inr None \<and> tier2 l soup = Inr None \<and>
    next_phrases = pre @ t # post \<and> (\<forall>p \<in> set pre. phrase_href l soup p = Inr None) \<and>
    phrase_href l soup t = Inr (Some h) \<longrightarrow>
      find_next_url l soup sels = map_sum id Some (urljoin l (base_of sels) h)) \<and>
   (tier1 l soup sels = Inr None \<and> tier2 l soup = Inr None \<and>
    (\<forall>p \<in> set next_phrases. phrase_href l soup p = Inr None) \<longrightarrow>
      find_next_url l soup sels = Inr None)"
  using find_next_url_tier1 [of l soup sels h] find_next_url_tier2 [of l soup sels h]
    find_next_url_tier3 [of l soup sels]
    text_heuristics_first [of pre l soup t h "base_of sels" post]
    text_heuristics_none [of next_phrases l soup "base_of sels"]
  by auto

text \<open>
  C7 as it is written fails in the third tier: on the page
  \<open><a href="/more">Load more</a><a href="/n">Next</a>\<close> the first anchor whose text
  matches one of the phrases is the first one, but the program returns the target of the
  second, because it tries the phrase "Next" before the phrase "Load more".
\<close>

theorem two_links_phrase_order:
  "find_next_url (demo_lib []) page_two_links no_selectors = Inr (Some ''/n'') \<and>
   href_of (demo_lib []) (first_phrase_anchor (demo_lib []) page_two_links next_phrases)
     = Some ''/more''"
  by code_simp

lemma tiers_example_selector: "tier1 (demo_lib []) page_tiers (no_selectors\<lparr>sel_next_selector := Some ''.more''\<rparr>) = Inr (Some ''/s'')"
  by code_simp
lemma tiers_example_rel: "tier1 (demo_lib []) page_tiers no_selectors = Inr None \<and> tier2 (demo_lib []) page_tiers = Inr (Some ''/r'')"
  by code_simp
lemma tiers_example_phrase: "tier1 (demo_lib []) page_two_links no_selectors = Inr None \<and>
   tier2 (demo_lib []) page_two_links = Inr None \<and>
   next_phrases = [''Seuraava''] @ ''Next'' # drop 2 next_phrases \<and>
   phrase_href (demo_lib []) page_two_links ''Seuraava'' = Inr None \<and>
   phrase_href (demo_lib []) page_two_links ''Next'' = Inr (Some ''/n'')"
  by code_simp
lemma tiers_example_none: "tier1 (demo_lib []) (Elem ''[document]'' [] [] []) no_selectors = Inr None \<and>
   tier2 (demo_lib []) (Elem ''[document]'' [] [] []) = Inr None \<and>
   list_all (\<lambda>p. phrase_href (demo_lib []) (Elem ''[document]'' [] [] []) p = Inr None) next_phrases"
  by code_simp

theorem find_next_url_precedence_witness:
  "find_next_url (demo_lib []) page_tiers (no_selectors\<lparr>sel_next_selector := Some ''.more''\<rparr>)
     = Inr (Some ''/s'') \<and>
   find_next_url (demo_lib []) page_tiers no_selectors = Inr (Some ''/r'') \<and>
   find_next_url (demo_lib []) page_two_links no_selectors = Inr (Some ''/n'') \<and>
   find_next_url (demo_lib []) (Elem ''[document]'' [] [] []) no_selectors = Inr None"
proof (intro conjI)
  show "find_next_url (demo_lib []) page_tiers (no_selectors\<lparr>sel_next_selector := Some ''.more''\<rparr>)
     = Inr (Some ''/s'')"
    using find_next_url_precedence [of "demo_lib []" page_tiers
        "no_selectors\<lparr>sel_next_selector := Some ''.more''\<rparr>" "''/s''"] tiers_example_selector
    by (simp add: base_of_def no_selectors_def or_empty_def demo_lib_def demo_urljoin_def)
  show "find_next_url (demo_lib []) page_tiers no_selectors = Inr (Some ''/r'')"
    using find_next_url_precedence [of "demo_lib []" page_tiers no_selectors "''/r''"] tiers_example_rel
    by (simp add: base_of_def no_selectors_def or_empty_def demo_lib_def demo_urljoin_def)
  show "find_next_url (demo_lib []) page_two_links no_selectors = Inr (Some ''/n'')"
    using find_next_url_precedence [of "demo_lib []" page_two_links no_selectors "''/n''"
        "[''Seuraava'']" "''Next''" "drop 2 next_phrases"] tiers_example_phrase
    by (simp add: base_of_def no_selectors_def or_empty_def demo_lib_def demo_urljoin_def)
  show "find_next_url (demo_lib []) (Elem ''[document]'' [] [] []) no_selectors = Inr None"
    using find_next_url_precedence [of "demo_lib []" "Elem ''[document]'' [] [] []" no_selectors] tiers_example_none
    by (simp add: list_all_iff)
qed

subsection \<open>The crawl\<close>

text \<open>
  From here on the equation of \<open>walk\<close> is unfolded by hand, one step at a time.
\<close>

declare walk.simps [simp del]

text \<open>The first posting of each key.\<close>

lemma first_by_key_keys: "key ` set (first_by_key js) = key ` set js"
  by (induction js rule: first_by_key.induct) auto

lemma first_by_key_subset: "set (first_by_key js) \<subseteq> set js"
  by (induction js rule: first_by_key.induct) auto

lemma first_by_key_distinct: "distinct (map key (first_by_key js))"
proof (induction js rule: first_by_key.induct)
  case 1
  then show ?case by simp
next
  case (2 j js)
  have "key j \<notin> key ` set (first_by_key (filter (\<lambda>x. key x \<noteq> key j) js))"
    unfolding first_by_key_keys by auto
  with 2 show ?case by auto
qed

lemma find_filter_other:
  "k \<noteq> k' \<Longrightarrow> find (\<lambda>x. key x = k) (filter (\<lambda>x. key x \<noteq> k') js) = find (\<lambda>x. key x = k) js"
  by (induction js) auto

lemma first_by_key_first:
  "j \<in> set (first_by_key js) \<Longrightarrow> find (\<lambda>x. key x = key j) js = Some j"
proof (induction js rule: first_by_key.induct)
  case 1
  then show ?case by simp
next
  case (2 a js)
  show ?case
  proof (cases "j = a")
    case True
    then show ?thesis by simp
  next
    case False
    with "2.prems" have m: "j \<in> set (first_by_key (filter (\<lambda>x. key x \<noteq> key a) js))"
      by simp
    then have "j \<in> set (filter (\<lambda>x. key x \<noteq> key a) js)"
      using first_by_key_subset by blast
    then have ne: "key j \<noteq> key a" by simp
    from "2.IH" [OF m] have "find (\<lambda>x. key x = key j) js = Some j"
      using ne by (simp add: find_filter_other)
    with ne show ?thesis by auto
  qed
qed

lemma first_by_key_append:
  "first_by_key (xs @ ys) =
     first_by_key xs @ first_by_key (filter (\<lambda>y. key y \<notin> key ` set xs) ys)"
proof (induction xs arbitrary: ys rule: first_by_key.induct)
  case 1
  then show ?case by simp
next
  case (2 j js)
  have "filter (\<lambda>y. key y \<notin> key ` set (filter (\<lambda>x. key x \<noteq> key j) js))
          (filter (\<lambda>x. key x \<noteq> key j) ys) =
        filter (\<lambda>y. key y \<notin> key ` set (j # js)) ys"
    by (induction ys) auto
  with "2.IH" [of "filter (\<lambda>x. key x \<noteq> key j) ys"] show ?case by simp
qed

text \<open>The loop over the postings of one page.\<close>

lemma add_jobs_logs [simp]:
  "fetched (add_jobs m js st) = fetched st" "extracted (add_jobs m js st) = extracted st"
  by (induction js arbitrary: st) (simp_all add: Let_def)

lemma add_jobs_length:
  "int (length (results st)) < m \<Longrightarrow> int (length (results (add_jobs m js st))) \<le> m"
  by (induction js arbitrary: st) (auto simp: Let_def)

lemma add_jobs_stop:
  "key j \<notin> seen st \<Longrightarrow> int (length (results st)) + 1 \<ge> m \<Longrightarrow>
     add_jobs m (j # js) st = st\<lparr>results := results st @ [j], seen := insert (key j) (seen st)\<rparr>"
  by (simp add: Let_def)

lemma add_jobs_spec:
  "seen st = key ` set (results st) \<Longrightarrow> int (length (results st)) < m \<Longrightarrow>
     results (add_jobs m js st) =
       take (nat m) (results st @ first_by_key (filter (\<lambda>j. key j \<notin> seen st) js)) \<and>
     seen (add_jobs m js st) = key ` set (results (add_jobs m js st))"
proof (induction js arbitrary: st)
  case Nil
  then show ?case by simp
next
  case (Cons j js)
  show ?case
  proof (cases "key j \<in> seen st")
    case True
    with Cons.IH [OF Cons.prems] show ?thesis by (simp add: Let_def)
  next
    case False
    let ?st = "st\<lparr>results := results st @ [j], seen := insert (key j) (seen st)\<rparr>"
    have f: "filter (\<lambda>x. key x \<noteq> key j) (filter (\<lambda>x. key x \<notin> seen st) js) =
        filter (\<lambda>x. key x \<notin> insert (key j) (seen st)) js"
      by (induction js) auto
    show ?thesis
    proof (cases "int (length (results ?st)) \<ge> m")
      case True
      then have "nat m = Suc (length (results st))"
        using Cons.prems(2) by simp
      with True False Cons.prems(1) show ?thesis by (simp add: Let_def)
    next
      case le: False
      have p: "seen ?st = key ` set (results ?st)" using Cons.prems(1) by simp
      have q: "int (length (results ?st)) < m" using le by simp
      from Cons.IH [OF p q] False le f show ?thesis by (simp add: Let_def)
    qed
  qed
qed

lemma add_jobs_inv:
  assumes "site_inv m st" and "int (length (results st)) < m"
  shows "site_inv m (add_jobs m js (st\<lparr>extracted := extracted st @ js\<rparr>))"
proof -
  let ?F = "first_by_key (extracted st)"
  have r: "results st = take (nat m) ?F" and s: "seen st = key ` set (results st)"
    using assms(1) by (simp_all add: site_inv_def)
  have "length (results st) < nat m" using assms(2) by simp
  with r have "length ?F < nat m" by (simp add: min_def split: if_splits)
  with r have rf: "results st = ?F" by simp
  let ?st = "st\<lparr>extracted := extracted st @ js\<rparr>"
  have "seen ?st = key ` set (results ?st)" "int (length (results ?st)) < m"
    using s assms(2) by simp_all
  from add_jobs_spec [OF this] have
    a: "results (add_jobs m js ?st) =
          take (nat m) (results st @ first_by_key (filter (\<lambda>j. key j \<notin> seen st) js))"
    and b: "seen (add_jobs m js ?st) = key ` set (results (add_jobs m js ?st))"
    by simp_all
  have "seen st = key ` set (extracted st)"
    using s rf by (simp add: first_by_key_keys)
  then have "results st @ first_by_key (filter (\<lambda>j. key j \<notin> seen st) js) =
      first_by_key (extracted st @ js)"
    using rf by (simp add: first_by_key_append)
  with a b show ?thesis by (simp add: site_inv_def)
qed

text \<open>
  A property of the state that requesting a page keeps, and that the loop over a page's
  postings keeps when it is entered under the cap, holds after the walk of a start URL
  and after the crawl of the site.
\<close>

lemma walk_preserves:
  assumes "\<And>st u. P st \<Longrightarrow> P (st\<lparr>fetched := fetched st @ [u]\<rparr>)"
    and "\<And>st js. P st \<Longrightarrow> int (length (results st)) < m \<Longrightarrow>
           P (add_jobs m js (st\<lparr>extracted := extracted st @ js\<rparr>))"
    and "P st"
  shows "P (snd (walk l w name c m dl u ps visited st))"
  using assms
proof (induction l w name c m dl u ps visited st rule: walk.induct)
  case (1 l w name c m dl u ps visited st)
  note f = "1.prems"(1) and a = "1.prems"(2) and p = "1.prems"(3)
  let ?st1 = "st\<lparr>fetched := fetched st @ [or_empty u]\<rparr>"
  have p1: "P ?st1" by (rule f [OF p])
  show ?case
  proof (cases "truthy u \<and> ps < max_pages_of c \<and> int (length (results st)) < m \<and>
      or_empty u \<notin> visited")
    case False
    then show ?thesis using p by (subst walk.simps) auto
  next
    case c: True
    show ?thesis
    proof (cases "fetch_url w (fetched st) (or_empty u)")
      case None
      then show ?thesis using c p1 by (subst walk.simps) (simp add: Let_def)
    next
      case (Some html)
      show ?thesis
      proof (cases "html = []")
        case True
        then show ?thesis using c p1 Some by (subst walk.simps) (simp add: Let_def)
      next
        case h: False
        show ?thesis
        proof (cases "extract_jobs_from_html l html c name dl")
          case (Inl e)
          then show ?thesis using c p1 Some h by (subst walk.simps) (simp add: Let_def)
        next
          case (Inr jobs)
          let ?st2 = "add_jobs m jobs (?st1\<lparr>extracted := extracted ?st1 @ jobs\<rparr>)"
          have p2: "P ?st2" using a [OF p1] c by simp
          show ?thesis
          proof (cases "int (length (results ?st2)) \<ge> m")
            case True
            then show ?thesis using c p2 Some h Inr by (subst walk.simps) (simp add: Let_def)
          next
            case lt: False
            show ?thesis
            proof (cases "find_next_url l (bs_parse l html) (selectors_of c)")
              case (Inl e)
              then show ?thesis
                using c p2 Some h Inr lt by (subst walk.simps) (simp add: Let_def)
            next
              case nx: (Inr next_url)
              have "P (snd (walk l w name c m dl next_url (ps + 1)
                              (insert (or_empty u) visited) ?st2))"
                using c Some h Inr lt nx
                by (intro "1.IH" [OF _ _ refl Some h Inr refl _ nx f a p2]) auto
              then show ?thesis
                using c Some h Inr lt nx by (subst walk.simps) (simp add: Let_def)
            qed
          qed
        qed
      qed
    qed
  qed
qed

text \<open>
  The pages a walk requests: no more than are left of \<open>max_pages\<close>, each once, and none
  that it had visited.
\<close>

lemma walk_fetched:
  "\<exists>new. fetched (snd (walk l w name c m dl u ps visited st)) = fetched st @ new \<and>
     int (length new) \<le> max 0 (max_pages_of c - ps) \<and> distinct new \<and>
     set new \<inter> visited = {}"
proof (induction l w name c m dl u ps visited st rule: walk.induct)
  case (1 l w name c m dl u ps visited st)
  let ?u = "or_empty u"
  let ?st1 = "st\<lparr>fetched := fetched st @ [?u]\<rparr>"
  let ?Q = "\<lambda>st'. \<exists>new. fetched st' = fetched st @ new \<and>
     int (length new) \<le> max 0 (max_pages_of c - ps) \<and> distinct new \<and>
     set new \<inter> visited = {}"
  have q0: "?Q st" by simp
  show ?case
  proof (cases "truthy u \<and> ps < max_pages_of c \<and> int (length (results st)) < m \<and>
      ?u \<notin> visited")
    case False
    then show ?thesis using q0 by (subst walk.simps) auto
  next
    case c: True
    have one: "?Q st'" if "fetched st' = fetched st @ [?u]" for st' :: crawl_state
    proof -
      from that have "fetched st' = fetched st @ [?u] \<and>
          int (length [?u]) \<le> max 0 (max_pages_of c - ps) \<and> distinct [?u] \<and>
          set [?u] \<inter> visited = {}"
        using c by simp
      then show ?thesis by blast
    qed
    have q1: "?Q ?st1" by (rule one) simp
    show ?thesis
    proof (cases "fetch_url w (fetched st) ?u")
      case None
      then show ?thesis using c q1 by (subst walk.simps) (simp add: Let_def)
    next
      case (Some html)
      show ?thesis
      proof (cases "html = []")
        case True
        then show ?thesis using c q1 Some by (subst walk.simps) (simp add: Let_def)
      next
        case h: False
        show ?thesis
        proof (cases "extract_jobs_from_html l html c name dl")
          case (Inl e)
          then show ?thesis using c q1 Some h by (subst walk.simps) (simp add: Let_def)
        next
          case (Inr jobs)
          let ?st2 = "add_jobs m jobs (?st1\<lparr>extracted := extracted ?st1 @ jobs\<rparr>)"
          have f2: "fetched ?st2 = fetched st @ [?u]" by simp
          have q2: "?Q ?st2" by (rule one) (rule f2)
          show ?thesis
          proof (cases "int (length (results ?st2)) \<ge> m")
            case True
            then show ?thesis using c q2 Some h Inr by (subst walk.simps) (simp add: Let_def)
          next
            case lt: False
            show ?thesis
            proof (cases "find_next_url l (bs_parse l html) (selectors_of c)")
              case (Inl e)
              then show ?thesis
                using c q2 Some h Inr lt by (subst walk.simps) (simp add: Let_def)
            next
              case nx: (Inr next_url)
              let ?r = "walk l w name c m dl next_url (ps + 1) (insert ?u visited) ?st2"
              have "\<exists>new. fetched (snd ?r) = fetched ?st2 @ new \<and>
                  int (length new) \<le> max 0 (max_pages_of c - (ps + 1)) \<and> distinct new \<and>
                  set new \<inter> insert ?u visited = {}"
                using c Some h Inr lt nx
                by (intro "1.IH" [OF _ _ refl Some h Inr refl _ nx]) auto
              then obtain new where n: "fetched (snd ?r) = fetched ?st2 @ new"
                "int (length new) \<le> max 0 (max_pages_of c - (ps + 1))" "distinct new"
                "set new \<inter> insert ?u visited = {}"
                by blast
              have "fetched (snd ?r) = fetched st @ (?u # new) \<and>
                  int (length (?u # new)) \<le> max 0 (max_pages_of c - ps) \<and>
                  distinct (?u # new) \<and> set (?u # new) \<inter> visited = {}"
                using n c f2 by auto
              then have "?Q (snd ?r)" by blast
              then show ?thesis
                using c Some h Inr lt nx by (subst walk.simps) (simp add: Let_def)
            qed
          qed
        qed
      qed
    qed
  qed
qed

lemma walk_revisit: "u \<in> visited \<Longrightarrow> walk l w name c m dl (Some u) ps visited st = (None, st)"
  by (subst walk.simps) (simp add: or_empty_def)

lemma fetch_url_fails:
  "w history u = Inl e \<or> (w history u = Inr (code, body) \<and> code \<noteq> 200) \<Longrightarrow>
     fetch_url w history u = None"
  by (auto simp: fetch_url_def)

lemma walk_fetch_failure:
  assumes "u \<noteq> []" "ps < max_pages_of c" "int (length (results st)) < m" "u \<notin> visited"
    and "fetch_url w (fetched st) u = None"
  shows "walk l w name c m dl (Some u) ps visited st =
    (None, st\<lparr>fetched := fetched st @ [u]\<rparr>)"
  using assms by (subst walk.simps) (simp add: or_empty_def truthy_def Let_def)

text \<open>
  C4. The walk of a start URL is a total function: its recursion ends because
  \<open>max_pages - pages_seen\<close> decreases with every page. From any state of the site's crawl
  it requests at most \<open>max_pages\<close> pages (none when \<open>max_pages\<close> is not positive), each URL
  at most once, and it extracts only from pages it requested. When the URL at the head of
  the loop is one the walk has visited, the walk ends there, with no request and the state
  as it was. When the request of a page fails, by an exception of the transport or by a
  status other than 200, the walk ends with that one request logged and nothing else
  changed: the page is not requested again.
\<close>

theorem walk_within_page_budget:
  "(\<exists>new. fetched (snd (walk l w name c m dl (Some start_url) 0 {} st)) = fetched st @ new \<and>
      int (length new) \<le> max 0 (max_pages_of c) \<and> distinct new) \<and>
   (u \<in> visited \<longrightarrow> walk l w name c m dl (Some u) ps visited st = (None, st)) \<and>
   (u \<noteq> [] \<and> ps < max_pages_of c \<and> int (length (results st)) < m \<and> u \<notin> visited \<and>
    (w (fetched st) u = Inl e \<or> (w (fetched st) u = Inr (code, body) \<and> code \<noteq> 200)) \<longrightarrow>
      walk l w name c m dl (Some u) ps visited st =
        (None, st\<lparr>fetched := fetched st @ [u]\<rparr>))"
proof (intro conjI impI)
  show "\<exists>new. fetched (snd (walk l w name c m dl (Some start_url) 0 {} st)) = fetched st @ new \<and>
      int (length new) \<le> max 0 (max_pages_of c) \<and> distinct new"
    using walk_fetched [of l w name c m dl "Some start_url" 0 "{}" st] by auto
  show "walk l w name c m dl (Some u) ps visited st = (None, st)" if "u \<in> visited"
    using that by (rule walk_revisit)
  show "walk l w name c m dl (Some u) ps visited st = (None, st\<lparr>fetched := fetched st @ [u]\<rparr>)"
    if "u \<noteq> [] \<and> ps < max_pages_of c \<and> int (length (results st)) < m \<and> u \<notin> visited \<and>
    (w (fetched st) u = Inl e \<or> (w (fetched st) u = Inr (code, body) \<and> code \<noteq> 200))"
  proof -
    from that have "fetch_url w (fetched st) u = None"
      by (intro fetch_url_fails [of w "fetched st" u e code body]) simp
    with that show ?thesis by (intro walk_fetch_failure) simp_all
  qed
qed

lemma crawl_pages_preserves:
  assumes "\<And>st u. P st \<Longrightarrow> P (st\<lparr>fetched := fetched st @ [u]\<rparr>)"
    and "\<And>st js. P st \<Longrightarrow> int (length (results st)) < m \<Longrightarrow>
           P (add_jobs m js (st\<lparr>extracted := extracted st @ js\<rparr>))"
  shows "P st \<Longrightarrow> P (snd (crawl_pages l w name c m specs st))"
proof (induction specs arbitrary: st)
  case Nil
  then show ?case by simp
next
  case (Cons sp specs)
  obtain start dl where sp: "sp = (start, dl)" by (cases sp)
  let ?r = "walk l w name c m dl (Some start) 0 {} st"
  have p: "P (snd ?r)"
    using walk_preserves [of P m st l w name c dl "Some start" 0 "{}"] assms Cons.prems
    by blast
  show ?case
  proof (cases ?r)
    case (Pair e st')
    with p have p': "P st'" by simp
    show ?thesis
    proof (cases e)
      case None
      with Pair sp Cons.IH [OF p'] show ?thesis by simp
    next
      case (Some x)
      with Pair sp p' show ?thesis by simp
    qed
  qed
qed

lemma crawl_site_run_preserves:
  assumes "\<And>st u. P st \<Longrightarrow> P (st\<lparr>fetched := fetched st @ [u]\<rparr>)"
    and "\<And>st js. P st \<Longrightarrow> int (length (results st)) < m \<Longrightarrow>
           P (add_jobs m js (st\<lparr>extracted := extracted st @ js\<rparr>))"
    and "P init_state"
  shows "P (snd (crawl_site_run l w name c m))"
proof (cases "build_pages c")
  case (Inl e)
  then show ?thesis using assms(3) by (simp add: crawl_site_run_def)
next
  case (Inr specs)
  then show ?thesis
    using crawl_pages_preserves [of P m init_state l w name c specs] assms
    by (simp add: crawl_site_run_def)
qed

lemma cap_add: "int (length (results st)) < m \<Longrightarrow>
    int (length (results (add_jobs m js (st\<lparr>extracted := extracted st @ js\<rparr>)))) \<le> m"
  using add_jobs_length [of "st\<lparr>extracted := extracted st @ js\<rparr>" m js] by simp

text \<open>
  C5. With the cap \<open>max_items = m\<close>, the result list of a site's crawl holds at most \<open>m\<close>
  postings at the end (none when \<open>m\<close> is not positive). The list is one list for all the
  start URLs of the site, and the bound is kept at every point: every walk started from a
  state within the bound ends within it, the loop over a page's postings entered below
  the cap ends at most at the cap whatever the page holds, and that loop stops at the
  posting that brings the list to the cap, the rest of the page left unread.
\<close>

theorem results_within_item_cap:
  "int (length (results (snd (crawl_site_run l w name c m)))) \<le> max 0 m \<and>
   (int (length (results st)) \<le> max 0 m \<longrightarrow>
      int (length (results (snd (walk l w name c m dl u ps visited st)))) \<le> max 0 m) \<and>
   (int (length (results st)) < m \<longrightarrow> int (length (results (add_jobs m js st))) \<le> m) \<and>
   (key j \<notin> seen st \<and> int (length (results st)) + 1 \<ge> m \<longrightarrow>
      add_jobs m (j # js) st =
        st\<lparr>results := results st @ [j], seen := insert (key j) (seen st)\<rparr>)"
proof (intro conjI impI)
  show "int (length (results (snd (crawl_site_run l w name c m)))) \<le> max 0 m"
    by (rule crawl_site_run_preserves [where P = "\<lambda>st. int (length (results st)) \<le> max 0 m"])
      (simp_all add: cap_add init_state_def)
  show "int (length (results (snd (walk l w name c m dl u ps visited st)))) \<le> max 0 m"
    if "int (length (results st)) \<le> max 0 m"
    by (rule walk_preserves [where P = "\<lambda>st. int (length (results st)) \<le> max 0 m"])
      (simp_all add: cap_add that)
  show "int (length (results (add_jobs m js st))) \<le> m" if "int (length (results st)) < m"
    using that by (rule add_jobs_length)
  show "add_jobs m (j # js) st = st\<lparr>results := results st @ [j], seen := insert (key j) (seen st)\<rparr>"
    if "key j \<notin> seen st \<and> int (length (results st)) + 1 \<ge> m"
    using that add_jobs_stop by blast
qed

lemma site_inv_run: "site_inv m (snd (crawl_site_run l w name c m))"
  by (rule crawl_site_run_preserves [where P = "site_inv m"])
    (simp_all add: add_jobs_inv, simp_all add: site_inv_def init_state_def)

text \<open>
  C10. After the crawl of a site no two postings of the result list have the same identity
  key; every posting of the list is the first one with its key among all the postings the
  extractor returned, over all pages and start URLs in the order of discovery; the list is
  the list of these first postings, cut at the cap; and the set \<open>seen\<close> holds the keys of
  the list.
\<close>

theorem site_dedup_first_wins:
  "distinct (map key (results (snd (crawl_site_run l w name c m)))) \<and>
   (\<forall>j \<in> set (results (snd (crawl_site_run l w name c m))).
      find (\<lambda>x. key x = key j) (extracted (snd (crawl_site_run l w name c m))) = Some j) \<and>
   results (snd (crawl_site_run l w name c m)) =
     take (nat m) (first_by_key (extracted (snd (crawl_site_run l w name c m)))) \<and>
   seen (snd (crawl_site_run l w name c m)) =
     key ` set (results (snd (crawl_site_run l w name c m)))"
proof -
  let ?st = "snd (crawl_site_run l w name c m)"
  have r: "results ?st = take (nat m) (first_by_key (extracted ?st))"
    and s: "seen ?st = key ` set (results ?st)"
    using site_inv_run [of m l w name c] by (simp_all add: site_inv_def)
  have d: "distinct (map key (results ?st))"
    unfolding r by (simp add: take_map [symmetric] first_by_key_distinct distinct_take)
  have f: "find (\<lambda>x. key x = key j) (extracted ?st) = Some j" if "j \<in> set (results ?st)" for j
  proof -
    from that have "j \<in> set (first_by_key (extracted ?st))"
      unfolding r by (rule in_set_takeD)
    then show ?thesis by (rule first_by_key_first)
  qed
  from d f r s show ?thesis by blast
qed

lemma site_walk_fetched:
  "fetched (snd (walk site_lib site_web ''s'' rule_site 10 None (Some ''http://x/1'') 0 {}
      init_state)) = [''http://x/1'', ''http://x/2'']"
  by code_simp

lemma site_fetch_404:
  "''http://x/404'' \<noteq> [] \<and> 0 < max_pages_of rule_site \<and>
   int (length (results init_state)) < 10 \<and> ''http://x/404'' \<notin> {} \<and>
   (site_web (fetched init_state) ''http://x/404'' = Inl RequestException \<or>
    (site_web (fetched init_state) ''http://x/404'' = Inr (404, []) \<and> (404 :: int) \<noteq> 200))"
  by code_simp

text \<open>
  On the site of the example the walk from page 1 requests pages 1 and 2 and stops at the
  link back to page 1; a walk that comes to a visited URL does nothing; the walk from the
  URL that is not served ends after its one request.
\<close>

theorem walk_within_page_budget_witness:
  "fetched (snd (walk site_lib site_web ''s'' rule_site 10 None (Some ''http://x/1'') 0 {}
      init_state)) = [''http://x/1'', ''http://x/2''] \<and>
   walk site_lib site_web ''s'' rule_site 10 None (Some ''http://x/1'') 2
      {''http://x/1'', ''http://x/2''} init_state = (None, init_state) \<and>
   walk site_lib site_web ''s'' rule_site 10 None (Some ''http://x/404'') 0 {} init_state =
      (None, init_state\<lparr>fetched := fetched init_state @ [''http://x/404'']\<rparr>)"
proof -
  have "''http://x/1'' \<in> {''http://x/1'', ''http://x/2''}" by simp
  then have "walk site_lib site_web ''s'' rule_site 10 None (Some ''http://x/1'') 2
      {''http://x/1'', ''http://x/2''} init_state = (None, init_state)"
    by (rule walk_within_page_budget [THEN conjunct2, THEN conjunct1, THEN mp])
  moreover have "walk site_lib site_web ''s'' rule_site 10 None (Some ''http://x/404'') 0 {}
      init_state = (None, init_state\<lparr>fetched := fetched init_state @ [''http://x/404'']\<rparr>)"
    using site_fetch_404
    by (rule walk_within_page_budget [THEN conjunct2, THEN conjunct2, THEN mp])
  ultimately show ?thesis using site_walk_fetched by simp
qed

lemma site_run_cap2:
  "results (snd (crawl_site_run site_lib site_web ''s'' rule_site 2)) =
     [found ''Cook'' ''http://x/Cook'', found ''Waiter'' ''http://x/waiter'']"
  by code_simp

lemma site_run_fetched:
  "fetched (snd (crawl_site_run site_lib site_web ''s'' rule_site 10)) =
     [''http://x/1'', ''http://x/2'', ''http://x/404'']"
  by code_simp

lemma site_run_results:
  "results (snd (crawl_site_run site_lib site_web ''s'' rule_site 10)) =
     [found ''Cook'' ''http://x/Cook'', found ''Waiter'' ''http://x/waiter'',
      found ''Baker'' ''http://x/baker'']"
  by code_simp

lemma site_run_extracted:
  "extracted (snd (crawl_site_run site_lib site_web ''s'' rule_site 10)) =
     [found ''Cook'' ''http://x/Cook'', found ''Cook again'' ''http://x/cook'',
      found ''Waiter'' ''http://x/waiter'', found ''Baker'' ''http://x/baker'']"
  by code_simp

lemma site_keys:
  "key (found ''Cook again'' ''http://x/cook'') = key (found ''Cook'' ''http://x/Cook'')"
  "key (found ''Cook'' ''http://x/Cook'') \<notin> seen init_state \<and>
     int (length (results init_state)) + 1 \<ge> 1"
  by code_simp+

text \<open>
  On the site of the example with the cap 2, the crawl ends with the postings Cook and
  Waiter: the third new posting of page 2 is not read.
\<close>

theorem results_within_item_cap_witness:
  "results (snd (crawl_site_run site_lib site_web ''s'' rule_site 2)) =
     [found ''Cook'' ''http://x/Cook'', found ''Waiter'' ''http://x/waiter''] \<and>
   int (length (results (snd (crawl_site_run site_lib site_web ''s'' rule_site 2)))) \<le> 2 \<and>
   int (length (results (snd (walk site_lib site_web ''s'' rule_site 2 None
      (Some ''http://x/1'') 0 {} init_state)))) \<le> 2 \<and>
   int (length (results (add_jobs 2 [found ''Cook'' ''http://x/Cook'',
      found ''Waiter'' ''http://x/waiter'', found ''Baker'' ''http://x/baker''] init_state))) \<le> 2 \<and>
   add_jobs 1 [found ''Cook'' ''http://x/Cook'', found ''Waiter'' ''http://x/waiter'']
      init_state =
     init_state\<lparr>results := results init_state @ [found ''Cook'' ''http://x/Cook''],
       seen := insert (key (found ''Cook'' ''http://x/Cook'')) (seen init_state)\<rparr>"
proof -
  note t = results_within_item_cap [where m = 2 and st = init_state]
  note t1 = results_within_item_cap [where m = 1 and st = init_state]
  have i: "int (length (results init_state)) \<le> max 0 2" "int (length (results init_state)) < 2"
    by (simp_all add: init_state_def)
  have "int (length (results (snd (crawl_site_run site_lib site_web ''s'' rule_site 2)))) \<le> 2"
    using t [THEN conjunct1, of site_lib site_web "''s''" rule_site] by simp
  moreover have "int (length (results (snd (walk site_lib site_web ''s'' rule_site 2 None
      (Some ''http://x/1'') 0 {} init_state)))) \<le> 2"
    using t [THEN conjunct2, THEN conjunct1, THEN mp, OF i(1)] by simp
  moreover have "int (length (results (add_jobs 2 [found ''Cook'' ''http://x/Cook'',
      found ''Waiter'' ''http://x/waiter'', found ''Baker'' ''http://x/baker''] init_state))) \<le> 2"
    using i(2) by (rule t [THEN conjunct2, THEN conjunct2, THEN conjunct1, THEN mp])
  moreover have "add_jobs 1 [found ''Cook'' ''http://x/Cook'', found ''Waiter'' ''http://x/waiter'']
      init_state =
     init_state\<lparr>results := results init_state @ [found ''Cook'' ''http://x/Cook''],
       seen := insert (key (found ''Cook'' ''http://x/Cook'')) (seen init_state)\<rparr>"
    using site_keys(2) by (rule t1 [THEN conjunct2, THEN conjunct2, THEN conjunct2, THEN mp])
  ultimately show ?thesis using site_run_cap2 by simp
qed

text \<open>
  On the site of the example, page 2 offers the posting "Cook again" under the URL of
  "Cook" in other letter case: it is dropped, and the key holds the posting of page 1.
\<close>

theorem site_dedup_first_wins_witness:
  "results (snd (crawl_site_run site_lib site_web ''s'' rule_site 10)) =
     [found ''Cook'' ''http://x/Cook'', found ''Waiter'' ''http://x/waiter'',
      found ''Baker'' ''http://x/baker''] \<and>
   extracted (snd (crawl_site_run site_lib site_web ''s'' rule_site 10)) =
     [found ''Cook'' ''http://x/Cook'', found ''Cook again'' ''http://x/cook'',
      found ''Waiter'' ''http://x/waiter'', found ''Baker'' ''http://x/baker''] \<and>
   key (found ''Cook again'' ''http://x/cook'') = key (found ''Cook'' ''http://x/Cook'') \<and>
   find (\<lambda>x. key x = key (found ''Cook again'' ''http://x/cook''))
     (extracted (snd (crawl_site_run site_lib site_web ''s'' rule_site 10))) =
     Some (found ''Cook'' ''http://x/Cook'') \<and>
   distinct (map key (results (snd (crawl_site_run site_lib site_web ''s'' rule_site 10))))"
proof -
  note t = site_dedup_first_wins [of site_lib site_web "''s''" rule_site 10]
  have "found ''Cook'' ''http://x/Cook'' \<in>
      set (results (snd (crawl_site_run site_lib site_web ''s'' rule_site 10)))"
    by (simp add: site_run_results)
  with t have "find (\<lambda>x. key x = key (found ''Cook'' ''http://x/Cook''))
     (extracted (snd (crawl_site_run site_lib site_web ''s'' rule_site 10))) =
     Some (found ''Cook'' ''http://x/Cook'')"
    by blast
  with t site_run_results site_run_extracted site_keys(1) show ?thesis by simp
qed

end
